theory Spec2Isabelle
  imports Complex_Main
begin

section \<open>Python values, operators and errors\<close>

text \<open>
  The hyperparameter samples and the operators of \<^verbatim>\<open>lale/helpers.py\<close> are Python objects.
  A dictionary is an association list in insertion order with distinct keys; its keys
  are hyperparameter names (strings) or the index of a chosen alternative (an integer).
  An operator is one of the three structural variants the code dispatches on with
  \<^verbatim>\<open>isinstance\<close>. An individual operator carries what \<^verbatim>\<open>class_name()\<close> returns and its
  \<^verbatim>\<open>_hyperparams\<close> attribute (\<^verbatim>\<open>None\<close> or a dictionary); a pipeline carries what
  \<^verbatim>\<open>class_name()\<close>, \<^verbatim>\<open>steps()\<close> and \<^verbatim>\<open>edges()\<close> return; a choice carries what \<^verbatim>\<open>steps()\<close>
  returns. Python compares and hashes operators by identity (\<^verbatim>\<open>op_map[sub_op]\<close>), and the
  code does so for the steps and the edge endpoints of a pipeline only. So \<^verbatim>\<open>steps()\<close> of a
  pipeline is a list of step objects, each an identity (a number) with the operator it is,
  and \<^verbatim>\<open>edges()\<close> is a list of pairs of identities: two steps of equal class and
  hyperparameters are different objects when their identities differ, the same object
  stands at two places when the identity is repeated, and an endpoint that is no step has
  an identity of its own. The identities say which of the steps and endpoints of one
  pipeline are the same object, and mean nothing beyond that pipeline.
\<close>

datatype pykey = KStr string | KInt int

datatype pyval =
    PNone
  | PInt int
  | PStr string
  | PList "pyval list"
  | PTuple "pyval list"
  | PDict "(pykey \<times> pyval) list"
  | NestedHyperoptSpace pyval
  | val_wrapper pyval
  | POp operator
and operator =
    IndividualOp string "(pykey \<times> pyval) list option"
  | BasePipeline string "(nat \<times> operator) list" "(nat \<times> nat) list"
  | OperatorChoice "operator list"

type_synonym pydict = "(pykey \<times> pyval) list"

text \<open>The exceptions the modelled code can raise. \<open>UnpackError\<close> is the \<^verbatim>\<open>ValueError\<close> of
  a failed tuple unpacking; \<open>ValueError\<close> carries the message of a \<^verbatim>\<open>raise ValueError(...)\<close>
  of the source.\<close>

datatype error =
    ValueError string
  | UnpackError
  | AssertionError
  | TypeError
  | IndexError
  | KeyError
  | AttributeError
  | UnboundLocalError

subsection \<open>Python primitives used by the code\<close>

fun key_val :: "pykey \<Rightarrow> pyval" where
  "key_val (KStr s) = PStr s"
| "key_val (KInt i) = PInt i"

text \<open>\<^verbatim>\<open>list(x)\<close>, and the elements \<^verbatim>\<open>for e in x\<close> and \<^verbatim>\<open>enumerate(x)\<close> visit: a dictionary
  yields its keys, a string its characters, an object that is not iterable raises.\<close>

fun py_list :: "pyval \<Rightarrow> error + pyval list" where
  "py_list (PList xs) = Inr xs"
| "py_list (PTuple xs) = Inr xs"
| "py_list (PDict d) = Inr (map (\<lambda>kv. key_val (fst kv)) d)"
| "py_list (PStr s) = Inr (map (\<lambda>c. PStr [c]) s)"
| "py_list _ = Inl TypeError"

text \<open>\<^verbatim>\<open>xs[i]\<close> on a list: a negative index counts from the end, an index out of range
  raises.\<close>

definition py_index :: "'a list \<Rightarrow> int \<Rightarrow> error + 'a" where
  "py_index xs i =
     (let n = int (length xs) in
      if 0 \<le> i \<and> i < n then Inr (xs ! nat i)
      else if - n \<le> i \<and> i < 0 then Inr (xs ! nat (n + i))
      else Inl IndexError)"

text \<open>\<^verbatim>\<open>a, b = p\<close>.\<close>

definition unpack2 :: "pyval \<Rightarrow> error + pyval \<times> pyval" where
  "unpack2 p =
     (case py_list p of
        Inl e \<Rightarrow> Inl e
      | Inr [a, b] \<Rightarrow> Inr (a, b)
      | Inr _ \<Rightarrow> Inl UnpackError)"

text \<open>\<^verbatim>\<open>d[k] = v\<close> on a dictionary: the value of an existing key is replaced where it
  stands, a new key is appended.\<close>

fun dict_set :: "pydict \<Rightarrow> pykey \<Rightarrow> pyval \<Rightarrow> pydict" where
  "dict_set [] k v = [(k, v)]"
| "dict_set ((k', v') # d) k v = (if k' = k then (k, v) # d else (k', v') # dict_set d k v)"

text \<open>\<^verbatim>\<open>{**a, **b}\<close>: the entries of \<open>a\<close>, then each entry of \<open>b\<close> stored in turn.\<close>

fun dict_merge :: "pydict \<Rightarrow> pydict \<Rightarrow> pydict" where
  "dict_merge a [] = a"
| "dict_merge a ((k, v) # b) = dict_merge (dict_set a k v) b"

subsection \<open>\<^verbatim>\<open>dict_without\<close>\<close>

text \<open>
  \<^verbatim>\<open>
  def dict_without(orig_dict, key):
      return {k: orig_dict[k] for k in orig_dict if k != key}
  \<close>
  On a dictionary this drops the entry of \<open>key\<close>. The comprehension also runs on the other
  iterables: on a list or tuple it visits the elements and subscripts the sequence with
  each (an integer in range, or it raises); on a string it visits the characters and the
  subscript raises; an empty one gives the empty dictionary.
\<close>

fun index_items :: "pyval list \<Rightarrow> pykey \<Rightarrow> pyval list \<Rightarrow> error + pydict" where
  "index_items xs key [] = Inr []"
| "index_items xs key (e # es) =
     (if e = key_val key then index_items xs key es
      else (case e of
              PInt i \<Rightarrow>
                (case py_index xs i of
                   Inl err \<Rightarrow> Inl err
                 | Inr v \<Rightarrow>
                     (case index_items xs key es of
                        Inl err \<Rightarrow> Inl err
                      | Inr d \<Rightarrow> Inr ((KInt i, v) # filter (\<lambda>kv. fst kv \<noteq> KInt i) d)))
            | _ \<Rightarrow> Inl TypeError))"

fun dict_without :: "pyval \<Rightarrow> pykey \<Rightarrow> error + pydict" where
  "dict_without (PDict d) key = Inr (filter (\<lambda>kv. fst kv \<noteq> key) d)"
| "dict_without (PList xs) key = index_items xs key xs"
| "dict_without (PTuple xs) key = index_items xs key xs"
| "dict_without (PStr s) key = (if s = [] then Inr [] else Inl TypeError)"
| "dict_without _ key = Inl TypeError"

subsection \<open>\<^verbatim>\<open>val_wrapper\<close>\<close>

text \<open>
  \<^verbatim>\<open>
  @classmethod
  def unwrap(cls, obj):
      if isinstance(obj, cls):
          return cls.unwrap(obj.unwrap_self())
      else:
          return obj
  \<close>
\<close>

fun unwrap_self :: "pyval \<Rightarrow> pyval" where
  "unwrap_self (val_wrapper base) = base"
| "unwrap_self obj = obj"

fun is_val_wrapper :: "pyval \<Rightarrow> bool" where
  "is_val_wrapper (val_wrapper base) = True"
| "is_val_wrapper obj = False"

fun unwrap :: "pyval \<Rightarrow> pyval" where
  "unwrap (val_wrapper base) = unwrap base"
| "unwrap obj = obj"

section \<open>Instantiation from a hyperopt search space\<close>

text \<open>
  \<^verbatim>\<open>instantiate_from_hyperopt_search_space\<close> returns \<^verbatim>\<open>None\<close> or a value, and on a
  dictionary sample it stores the updates into the sample itself
  (\<^verbatim>\<open>new_hyperparams[k] = updated_params\<close>). The model passes that state explicitly:
  \<open>RetNone s\<close> is the return value \<^verbatim>\<open>None\<close> together with the sample object \<open>s\<close> as it
  stands after the call; \<open>RetVal v\<close> is the returned value \<open>v\<close>. The callers in the source
  keep the sample object only when the call returns \<^verbatim>\<open>None\<close>, and replace it by the
  returned value otherwise; \<open>entry\<close> is what the caller's container holds afterwards.
  A sample is a tree: no dictionary object occurs at two places of it.
\<close>

datatype inst_result = RetNone pyval | RetVal pyval

fun entry :: "inst_result \<Rightarrow> pyval" where
  "entry (RetNone s) = s"
| "entry (RetVal v) = v"

fun returned :: "inst_result \<Rightarrow> pyval option" where
  "returned (RetNone s) = None"
| "returned (RetVal v) = Some v"

fun is_update :: "inst_result \<Rightarrow> bool" where
  "is_update (RetNone s) = False"
| "is_update (RetVal v) = True"

fun is_tuple :: "pyval \<Rightarrow> bool" where
  "is_tuple (PTuple xs) = True"
| "is_tuple obj = False"

fun mk_seq :: "bool \<Rightarrow> pyval list \<Rightarrow> pyval" where
  "mk_seq True xs = PTuple xs"
| "mk_seq False xs = PList xs"

fun seq_items :: "pyval \<Rightarrow> pyval list option" where
  "seq_items (PList xs) = Some xs"
| "seq_items (PTuple xs) = Some xs"
| "seq_items obj = None"

text \<open>A sample that is none of the containers and markers the recursion descends into:
  the final \<^verbatim>\<open>else\<close> branch of \<^verbatim>\<open>instantiate_from_hyperopt_search_space\<close>.\<close>

fun is_leaf :: "pyval \<Rightarrow> bool" where
  "is_leaf (NestedHyperoptSpace sub_space) = False"
| "is_leaf (PList xs) = False"
| "is_leaf (PTuple xs) = False"
| "is_leaf (PDict d) = False"
| "is_leaf v = True"

text \<open>
  The head of the \<^verbatim>\<open>NestedHyperoptSpace\<close> branch: which original and which sample the
  recursion goes into.
  \<^verbatim>\<open>
  sub_params = new_hyperparams.sub_space
  sub_op = obj_hyperparams
  if isinstance(sub_op, list):
      if len(sub_op)==1:
          sub_op = sub_op[0]
      else:
          step_index, step_params = list(sub_params)[0]
          if step_index < len(sub_op):
              sub_op = sub_op[step_index]
              sub_params = step_params
  \<close>
\<close>

fun resolve_nested :: "pyval \<Rightarrow> pyval \<Rightarrow> error + pyval \<times> pyval" where
  "resolve_nested (PList [x]) sub_params = Inr (x, sub_params)"
| "resolve_nested (PList xs) sub_params =
     (case py_list sub_params of
        Inl e \<Rightarrow> Inl e
      | Inr [] \<Rightarrow> Inl IndexError
      | Inr (p # ps) \<Rightarrow>
          (case unpack2 p of
             Inl e \<Rightarrow> Inl e
           | Inr (step_index, step_params) \<Rightarrow>
               (case step_index of
                  PInt i \<Rightarrow>
                    if i < int (length xs)
                    then (case py_index xs i of
                            Inl e \<Rightarrow> Inl e
                          | Inr x \<Rightarrow> Inr (x, step_params))
                    else Inr (PList xs, sub_params)
                | _ \<Rightarrow> Inl TypeError)))"
| "resolve_nested sub_op sub_params = Inr (sub_op, sub_params)"

text \<open>
  \<^verbatim>\<open>
  if lale_object._hyperparams is not None:
      obj_hyperparams = dict(lale_object._hyperparams)
  else:
      obj_hyperparams = {}
  \<close>
\<close>

fun obj_hyperparams_of :: "pydict option \<Rightarrow> pydict" where
  "obj_hyperparams_of None = []"
| "obj_hyperparams_of (Some d) = d"

text \<open>The \<^verbatim>\<open>_hyperparams\<close> attribute of an individual operator: its effective
  hyperparameters once it is instantiated.\<close>

fun hyperparams_of :: "operator \<Rightarrow> pydict option" where
  "hyperparams_of (IndividualOp cn hp) = hp"
| "hyperparams_of lale_object = None"

text \<open>\<^verbatim>\<open>class_name()\<close> of an operator (a method of \<^verbatim>\<open>lale.operators\<close>, not under src): the
  object carries what the method returns.\<close>

fun class_name :: "operator \<Rightarrow> string" where
  "class_name (IndividualOp cn hp) = cn"
| "class_name (BasePipeline cn steps edges) = cn"
| "class_name (OperatorChoice choices) = ''lale.operators.OperatorChoice''"

fun is_choice :: "operator \<Rightarrow> bool" where
  "is_choice (OperatorChoice choices) = True"
| "is_choice lale_object = False"

text \<open>Modelled from the spec: \<^verbatim>\<open>lale_object(**all_hyperparams)\<close>, the call of an individual
  operator (\<^verbatim>\<open>lale.operators\<close>, not under src): "Returns a new operator instance
  constructed with the merged hyperparameters". Python itself raises \<^verbatim>\<open>TypeError\<close> when a
  keyword is not a string.\<close>

fun is_str_key :: "pykey \<Rightarrow> bool" where
  "is_str_key (KStr s) = True"
| "is_str_key (KInt i) = False"

definition op_call :: "string \<Rightarrow> pydict \<Rightarrow> error + operator" where
  "op_call cn all_hyperparams =
     (if list_all (\<lambda>kv. is_str_key (fst kv)) all_hyperparams
      then Inr (IndividualOp cn (Some all_hyperparams))
      else Inl TypeError)"

text \<open>Modelled from the spec: \<^verbatim>\<open>TrainablePipeline(op_instances, trainable_edges, ordered=True)\<close>
  (\<^verbatim>\<open>lale.operators\<close>, not under src): a pipeline of the given steps, in the given order,
  and the given edges ("reconstructs a pipeline preserving original edge topology over the
  new instances"), whose class is \<^verbatim>\<open>TrainablePipeline\<close>. The instances are new objects:
  the identity of each, within the new pipeline, is its position in \<^verbatim>\<open>op_instances\<close>.\<close>

definition TrainablePipeline :: "operator list \<Rightarrow> (nat \<times> nat) list \<Rightarrow> operator" where
  "TrainablePipeline op_instances trainable_edges =
     BasePipeline ''lale.operators.TrainablePipeline'' (enumerate 0 op_instances) trainable_edges"

definition step_count_msg :: string where
  "step_count_msg = ''The number of steps in the hyper-parameter space does not match the number of steps in the pipeline.''"

definition edge_msg :: string where
  "edge_msg = ''An edge was found with an endpoint that is not a step''"

text \<open>\<^verbatim>\<open>op_map\<close> after the loop over the steps (\<^verbatim>\<open>op_map[sub_op] = op_instance\<close>): it is keyed
  by the identity of the step object and holds the instance made at that turn of the loop,
  the new object at the same position of \<^verbatim>\<open>op_instances\<close>; a later turn overwrites the
  entry of an earlier one for the same object.\<close>

definition op_map_of :: "(nat \<times> operator) list \<Rightarrow> nat \<rightharpoonup> nat" where
  "op_map_of steps = map_of (rev (zip (map fst steps) [0..<length steps]))"

text \<open>\<^verbatim>\<open>[(op_map[x], op_map[y]) for (x, y) in edges]\<close>; \<open>None\<close> is the \<^verbatim>\<open>KeyError\<close>.\<close>

fun trainable_edges_of ::
  "(nat \<rightharpoonup> nat) \<Rightarrow> (nat \<times> nat) list \<Rightarrow> (nat \<times> nat) list option" where
  "trainable_edges_of op_map [] = Some []"
| "trainable_edges_of op_map ((x, y) # edges) =
     (case (op_map x, op_map y) of
        (Some x', Some y') \<Rightarrow>
          (case trainable_edges_of op_map edges of
             None \<Rightarrow> None
           | Some es \<Rightarrow> Some ((x', y') # es))
      | _ \<Rightarrow> None)"

lemma py_index_mem: "py_index xs i = Inr x \<Longrightarrow> x \<in> set xs"
  by (auto simp: py_index_def Let_def split: if_splits)

lemma size_list_mem: "x \<in> set xs \<Longrightarrow> f x < Suc (size_list f xs)"
  by (induction xs) auto

lemma resolve_nested_size:
  "resolve_nested obj sp = Inr (x, sp') \<Longrightarrow> size x \<le> size obj"
  by (induction obj sp rule: resolve_nested.induct)
     (auto split: sum.splits list.splits pyval.splits if_splits prod.splits
           dest!: py_index_mem dest: size_list_mem [where f = size])

lemma map_of_size:
  "map_of d k = Some v \<Longrightarrow> size v < Suc (size_list (size_prod (\<lambda>x. 0) size) d)"
  by (induction d) (auto split: if_splits)

lemma resolve_nested_op_size:
  "resolve_nested obj sp = Inr (POp lale_object, sp') \<Longrightarrow> size lale_object < size obj"
  by (drule resolve_nested_size) simp

lemma seq_items_size: "seq_items obj = Some os \<Longrightarrow> size obj = Suc (size_list size os)"
  by (cases obj) auto

lemma py_index_size: "py_index xs i = Inr x \<Longrightarrow> f x < Suc (size_list f xs)"
  by (drule py_index_mem) (rule size_list_mem)

lemma obj_hyperparams_of_size:
  "size_list f (obj_hyperparams_of hp) \<noteq> size_option (size_list f) hp \<Longrightarrow>
   size_list f (obj_hyperparams_of hp) < size_option (size_list f) hp"
  by (cases hp) auto

lemma steps_size_le:
  "size_list (size \<circ> snd) (steps :: (nat \<times> operator) list)
     \<le> size_list (size_prod (\<lambda>x. 0) size) steps"
  by (induction steps) auto

lemma steps_size:
  "size_list (size \<circ> snd) (steps :: (nat \<times> operator) list)
     \<noteq> size_list (size_prod (\<lambda>x. 0) size) steps \<Longrightarrow>
   size_list (size \<circ> snd) steps < size_list (size_prod (\<lambda>x. 0) size) steps"
  using steps_size_le [of steps] by simp

function (sequential)
  instantiate_from_hyperopt_search_space :: "pyval \<Rightarrow> pyval \<Rightarrow> error + inst_result"
  and inst_seq :: "pyval list \<Rightarrow> pyval list \<Rightarrow> error + inst_result list"
  and inst_items :: "pydict \<Rightarrow> pydict \<Rightarrow> error + pydict"
  and create_instance_from_hyperopt_search_space :: "operator \<Rightarrow> pyval \<Rightarrow> error + operator"
  and create_steps :: "operator list \<Rightarrow> pyval list \<Rightarrow> error + operator list"
where
  "instantiate_from_hyperopt_search_space obj_hyperparams (NestedHyperoptSpace sub_space) =
     (case resolve_nested obj_hyperparams sub_space of
        Inl e \<Rightarrow> Inl e
      | Inr (sub_op, sub_params) \<Rightarrow>
          (case sub_op of
             POp lale_object \<Rightarrow>
               (case create_instance_from_hyperopt_search_space lale_object sub_params of
                  Inl e \<Rightarrow> Inl e
                | Inr inst \<Rightarrow> Inr (RetVal (POp inst)))
           | _ \<Rightarrow> Inr (RetNone (NestedHyperoptSpace sub_space))))"
| "instantiate_from_hyperopt_search_space obj_hyperparams (PList ns) =
     (case seq_items obj_hyperparams of
        None \<Rightarrow> Inl AssertionError
      | Some os \<Rightarrow>
          if length ns \<noteq> length os then Inl AssertionError
          else (case inst_seq os ns of
                  Inl e \<Rightarrow> Inl e
                | Inr rs \<Rightarrow>
                    if list_ex is_update rs
                    then Inr (RetVal (mk_seq (is_tuple obj_hyperparams) (map entry rs)))
                    else if is_tuple obj_hyperparams \<noteq> is_tuple (PList ns)
                    then Inr (RetVal (mk_seq (is_tuple obj_hyperparams) (map entry rs)))
                    else Inr (RetNone (PList (map entry rs)))))"
| "instantiate_from_hyperopt_search_space obj_hyperparams (PTuple ns) =
     (case seq_items obj_hyperparams of
        None \<Rightarrow> Inl AssertionError
      | Some os \<Rightarrow>
          if length ns \<noteq> length os then Inl AssertionError
          else (case inst_seq os ns of
                  Inl e \<Rightarrow> Inl e
                | Inr rs \<Rightarrow>
                    if list_ex is_update rs
                    then Inr (RetVal (mk_seq (is_tuple obj_hyperparams) (map entry rs)))
                    else if is_tuple obj_hyperparams \<noteq> is_tuple (PTuple ns)
                    then Inr (RetVal (mk_seq (is_tuple obj_hyperparams) (map entry rs)))
                    else Inr (RetNone (PTuple (map entry rs)))))"
| "instantiate_from_hyperopt_search_space obj_hyperparams (PDict nd) =
     (case obj_hyperparams of
        PDict od \<Rightarrow>
          (case inst_items od nd of
             Inl e \<Rightarrow> Inl e
           | Inr nd' \<Rightarrow> Inr (RetNone (PDict nd')))
      | _ \<Rightarrow> Inl AssertionError)"
| "instantiate_from_hyperopt_search_space obj_hyperparams new_hyperparams =
     Inr (RetNone new_hyperparams)"
| "inst_seq (ohi # os) (nhi # ns) =
     (case instantiate_from_hyperopt_search_space ohi nhi of
        Inl e \<Rightarrow> Inl e
      | Inr updated_params \<Rightarrow>
          (case inst_seq os ns of
             Inl e \<Rightarrow> Inl e
           | Inr rs \<Rightarrow> Inr (updated_params # rs)))"
| "inst_seq os ns = Inr []"
| "inst_items obj_hyperparams [] = Inr []"
| "inst_items obj_hyperparams ((k, sub_params) # items) =
     (case map_of obj_hyperparams k of
        None \<Rightarrow>
          (case inst_items obj_hyperparams items of
             Inl e \<Rightarrow> Inl e
           | Inr items' \<Rightarrow> Inr ((k, sub_params) # items'))
      | Some sub_op \<Rightarrow>
          (case instantiate_from_hyperopt_search_space sub_op sub_params of
             Inl e \<Rightarrow> Inl e
           | Inr updated_params \<Rightarrow>
               (case inst_items obj_hyperparams items of
                  Inl e \<Rightarrow> Inl e
                | Inr items' \<Rightarrow> Inr ((k, entry updated_params) # items'))))"
| "create_instance_from_hyperopt_search_space (IndividualOp cn hp) hyperparams =
     (case dict_without hyperparams (KStr ''name'') of
        Inl e \<Rightarrow> Inl e
      | Inr new_hyperparams \<Rightarrow>
          (case inst_items (obj_hyperparams_of hp) new_hyperparams of
             Inl e \<Rightarrow> Inl e
           | Inr new_hyperparams' \<Rightarrow>
               op_call cn (dict_merge (obj_hyperparams_of hp) new_hyperparams')))"
| "create_instance_from_hyperopt_search_space (BasePipeline cn steps edges) hyperparams =
     (case py_list hyperparams of
        Inl e \<Rightarrow> Inl e
      | Inr hs \<Rightarrow>
          if length hs \<noteq> length steps then Inl (ValueError step_count_msg)
          else (case create_steps (map snd steps) hs of
                  Inl e \<Rightarrow> Inl e
                | Inr op_instances \<Rightarrow>
                    (case trainable_edges_of (op_map_of steps) edges of
                       None \<Rightarrow> Inl (ValueError edge_msg)
                     | Some trainable_edges \<Rightarrow>
                         Inr (TrainablePipeline op_instances trainable_edges))))"
| "create_instance_from_hyperopt_search_space (OperatorChoice [step_object]) hyperparams =
     create_instance_from_hyperopt_search_space step_object hyperparams"
| "create_instance_from_hyperopt_search_space (OperatorChoice choices) hyperparams =
     (case hyperparams of
        PDict [] \<Rightarrow> Inl IndexError
      | PDict ((step_index, hyperparams') # items) \<Rightarrow>
          (case step_index of
             KInt i \<Rightarrow>
               (case py_index choices i of
                  Inl e \<Rightarrow> Inl e
                | Inr step_object \<Rightarrow>
                    create_instance_from_hyperopt_search_space step_object hyperparams')
           | KStr s \<Rightarrow> Inl TypeError)
      | _ \<Rightarrow> Inl AttributeError)"
| "create_steps (sub_op # steps) (sub_params # hs) =
     (case create_instance_from_hyperopt_search_space sub_op sub_params of
        Inl e \<Rightarrow> Inl e
      | Inr op_instance \<Rightarrow>
          if is_choice sub_op \<or> class_name sub_op = class_name op_instance
          then (case create_steps steps hs of
                  Inl e \<Rightarrow> Inl e
                | Inr op_instances \<Rightarrow> Inr (op_instance # op_instances))
          else Inl AssertionError)"
| "create_steps [] (sub_params # hs) = Inl IndexError"
| "create_steps steps [] = Inr []"
  by pat_completeness auto

termination
proof (relation "inv_image (less_than <*lex*> less_than <*lex*> less_than)
    (\<lambda>x. case x of
        Inl (Inl (obj, new)) \<Rightarrow> (size obj, 1::nat, 0::nat)
      | Inl (Inr (os, ns)) \<Rightarrow> (Suc (size_list size os), 0, 0)
      | Inr (Inl (od, items)) \<Rightarrow> (Suc (size_list (size_prod (\<lambda>x. 0) size) od), 0, length items)
      | Inr (Inr (Inl (lale_object, hp))) \<Rightarrow> (size lale_object, 1, 0)
      | Inr (Inr (Inr (steps, hs))) \<Rightarrow> (Suc (size_list size steps), 0, 0))")
qed (auto simp: seq_items_size dest: resolve_nested_op_size map_of_size
       py_index_size [where f = size] split: option.splits intro: obj_hyperparams_of_size steps_size)

section \<open>Splitting with schemas\<close>

text \<open>
  An array-like value (\<^verbatim>\<open>all_X\<close>, \<^verbatim>\<open>all_y\<close> and their subsets): its rows, so that
  \<^verbatim>\<open>shape[0]\<close> is their number, and its \<^verbatim>\<open>json_schema\<close> attribute, \<open>None\<close> when the object
  has no such attribute (\<^verbatim>\<open>hasattr\<close> is false).
\<close>

record 'a array_like =
  rows :: "'a list"
  json_schema :: "pyval option"

text \<open>\<^verbatim>\<open>json_schema['items']\<close>: a dictionary without the key raises \<^verbatim>\<open>KeyError\<close>, another
  object cannot be subscripted with a string.\<close>

fun schema_items :: "pyval \<Rightarrow> error + pyval" where
  "schema_items (PDict d) =
     (case map_of d (KStr ''items'') of None \<Rightarrow> Inl KeyError | Some v \<Rightarrow> Inr v)"
| "schema_items v = Inl TypeError"

text \<open>Modelled from the spec: \<^verbatim>\<open>_safe_split(estimator, all_X, all_y, indices, train_indices)\<close>,
  the row selection of scikit-learn, not under src: "given a full dataset and a set of row
  indices, produces a row subset". The subset is a new object, which has the selected rows
  and no schema yet; an index out of range raises; \<^verbatim>\<open>all_y\<close> may be \<^verbatim>\<open>None\<close>, and so is its
  subset then.\<close>

definition safe_indexing :: "'a array_like \<Rightarrow> nat list \<Rightarrow> error + 'a array_like" where
  "safe_indexing a indices =
     (if list_all (\<lambda>i. i < length (rows a)) indices
      then Inr \<lparr>rows = map (\<lambda>i. rows a ! i) indices, json_schema = None\<rparr>
      else Inl IndexError)"

definition safe_split ::
  "'e \<Rightarrow> 'a array_like \<Rightarrow> 'b array_like option \<Rightarrow> nat list \<Rightarrow> nat list option
   \<Rightarrow> error + 'a array_like \<times> 'b array_like option" where
  "safe_split estimator all_X all_y indices train_indices =
     (case safe_indexing all_X indices of
        Inl e \<Rightarrow> Inl e
      | Inr subset_X \<Rightarrow>
          (case all_y of
             None \<Rightarrow> Inr (subset_X, None)
           | Some y \<Rightarrow>
               (case safe_indexing y indices of
                  Inl e \<Rightarrow> Inl e
                | Inr subset_y \<Rightarrow> Inr (subset_X, Some subset_y))))"

text \<open>Modelled from the spec: \<^verbatim>\<open>lale.datasets.data_schemas.add_schema(obj, schema)\<close>, not
  under src: "\<^verbatim>\<open>add_schema(value, schema_dict)\<close>", which attaches the schema to the value.
  The source calls it as a statement and drops what it returns, so the schema reaches the
  subset that \<^verbatim>\<open>split_with_schemas\<close> returns only if \<^verbatim>\<open>add_schema\<close> attaches it to the object
  it is given, in place: that is what the model takes it to do.\<close>

definition add_schema :: "'a array_like \<Rightarrow> pyval \<Rightarrow> 'a array_like" where
  "add_schema obj schema = obj\<lparr>json_schema := Some schema\<rparr>"

text \<open>
  \<^verbatim>\<open>
  if hasattr(all_X, 'json_schema'):
      n_rows = subset_X.shape[0]
      schema = {
          'type': 'array', 'minItems': n_rows, 'maxItems': n_rows,
          'items': all_X.json_schema['items']}
      lale.datasets.data_schemas.add_schema(subset_X, schema)
  \<close>
  The source has this block once for \<open>X\<close> and once for \<open>y\<close>.
\<close>

definition derive_schema :: "'a array_like \<Rightarrow> 'a array_like \<Rightarrow> error + 'a array_like" where
  "derive_schema all_X subset_X =
     (case json_schema all_X of
        None \<Rightarrow> Inr subset_X
      | Some s \<Rightarrow>
          (let n_rows = int (length (rows subset_X)) in
           case schema_items s of
             Inl e \<Rightarrow> Inl e
           | Inr items \<Rightarrow>
               Inr (add_schema subset_X
                     (PDict [(KStr ''type'', PStr ''array''), (KStr ''minItems'', PInt n_rows),
                             (KStr ''maxItems'', PInt n_rows), (KStr ''items'', items)]))))"

definition split_with_schemas ::
  "'e \<Rightarrow> 'a array_like \<Rightarrow> 'b array_like option \<Rightarrow> nat list \<Rightarrow> nat list option
   \<Rightarrow> error + 'a array_like \<times> 'b array_like option" where
  "split_with_schemas estimator all_X all_y indices train_indices =
     (case safe_split estimator all_X all_y indices train_indices of
        Inl e \<Rightarrow> Inl e
      | Inr (subset_X, subset_y) \<Rightarrow>
          (case derive_schema all_X subset_X of
             Inl e \<Rightarrow> Inl e
           | Inr subset_X' \<Rightarrow>
               (case (all_y, subset_y) of
                  (Some y, Some sub_y) \<Rightarrow>
                    (case derive_schema y sub_y of
                       Inl e \<Rightarrow> Inl e
                     | Inr subset_y' \<Rightarrow> Inr (subset_X', Some subset_y'))
                | (Some y, None) \<Rightarrow>
                    (if json_schema y = None then Inr (subset_X', None) else Inl AttributeError)
                | (None, _) \<Rightarrow> Inr (subset_X', subset_y))))"

section \<open>Cross validation\<close>

text \<open>
  The collaborators of \<^verbatim>\<open>cross_val_score_track_trials\<close> are parameters of the model. The
  estimator has \<^verbatim>\<open>fit\<close>, which returns the trained model or raises, and
  \<^verbatim>\<open>predict_proba\<close> of the trained model, which raises \<^verbatim>\<open>AttributeError\<close> when the model
  has no such method. \<open>scorer\<close> is \<^verbatim>\<open>check_scoring(estimator, scoring)\<close> with
  \<^verbatim>\<open>args_to_scorer\<close> applied, \<open>log_loss\<close> is scikit-learn's, \<open>clock k\<close> is what the
  \<open>k\<close>-th call of \<^verbatim>\<open>time.time()\<close> returns, and \<open>folds\<close> are the pairs
  \<^verbatim>\<open>cv.split(X, y)\<close> yields. Python floats are modelled by the reals, rounding apart;
  \<open>NaN\<close> is the value numpy's mean gives for no element.
\<close>

record ('x, 'y, 'm, 'p) estimator =
  fit :: "'x array_like \<Rightarrow> 'y array_like option \<Rightarrow> error + 'm"
  predict_proba :: "'m \<Rightarrow> 'x array_like \<Rightarrow> error + 'p"

datatype npfloat = NaN | Float real

text \<open>\<^verbatim>\<open>np.array(xs).mean()\<close>.\<close>

fun np_mean :: "real list \<Rightarrow> npfloat" where
  "np_mean [] = NaN"
| "np_mean xs = Float (sum_list xs / real (length xs))"

text \<open>
  The body of the loop, for one fold, with \<open>tick\<close> calls of \<^verbatim>\<open>time.time()\<close> made before:
  \<^verbatim>\<open>score_value\<close>, the log loss when it could be computed, and \<^verbatim>\<open>execution_time\<close>.
  \<^verbatim>\<open>
  X_train, y_train = split_with_schemas(estimator, X, y, train)
  X_test, y_test = split_with_schemas(estimator, X, y, test, train)
  start = time.time()
  trained = estimator.fit(X_train, y_train)
  score_value  = scorer(trained, X_test, y_test, **args_to_scorer)
  execution_time = time.time() - start
  try:
      y_pred_proba = trained.predict_proba(X_test)
      logloss = log_loss(y_true=y_test, y_pred=y_pred_proba)
      log_loss_results.append(logloss)
  except BaseException:
      logger.debug("Warning, log loss cannot be computed")
  \<close>
\<close>

definition try_log_loss ::
  "('x, 'y, 'm, 'p) estimator \<Rightarrow> ('y array_like option \<Rightarrow> 'p \<Rightarrow> error + real)
   \<Rightarrow> 'm \<Rightarrow> 'x array_like \<Rightarrow> 'y array_like option \<Rightarrow> real option" where
  "try_log_loss estimator log_loss trained X_test y_test =
     (case predict_proba estimator trained X_test of
        Inl e \<Rightarrow> None
      | Inr y_pred_proba \<Rightarrow>
          (case log_loss y_test y_pred_proba of
             Inl e \<Rightarrow> None
           | Inr logloss \<Rightarrow> Some logloss))"

definition cv_fold ::
  "('x, 'y, 'm, 'p) estimator
   \<Rightarrow> ('m \<Rightarrow> 'x array_like \<Rightarrow> 'y array_like option \<Rightarrow> error + real)
   \<Rightarrow> ('y array_like option \<Rightarrow> 'p \<Rightarrow> error + real)
   \<Rightarrow> (nat \<Rightarrow> real)
   \<Rightarrow> 'x array_like \<Rightarrow> 'y array_like option
   \<Rightarrow> nat list \<times> nat list \<Rightarrow> nat \<Rightarrow> error + real \<times> real option \<times> real" where
  "cv_fold estimator scorer log_loss clock X y train_test tick =
     (case train_test of (train, test) \<Rightarrow>
      (case split_with_schemas estimator X y train None of
         Inl e \<Rightarrow> Inl e
       | Inr (X_train, y_train) \<Rightarrow>
           (case split_with_schemas estimator X y test (Some train) of
              Inl e \<Rightarrow> Inl e
            | Inr (X_test, y_test) \<Rightarrow>
                (let start = clock tick in
                 case fit estimator X_train y_train of
                   Inl e \<Rightarrow> Inl e
                 | Inr trained \<Rightarrow>
                     (case scorer trained X_test y_test of
                        Inl e \<Rightarrow> Inl e
                      | Inr score_value \<Rightarrow>
                          (let execution_time = clock (tick + 1) - start in
                           Inr (score_value,
                                try_log_loss estimator log_loss trained X_test y_test,
                                execution_time)))))))"

text \<open>The variables of the loop; \<open>execution_time\<close> is \<open>None\<close> while the local variable is
  unbound, and \<open>ticks\<close> counts the calls of \<^verbatim>\<open>time.time()\<close>.\<close>

record cv_state =
  cv_results :: "real list"
  log_loss_results :: "real list"
  time_results :: "real list"
  execution_time :: "real option"
  ticks :: nat

fun cv_loop ::
  "('x, 'y, 'm, 'p) estimator
   \<Rightarrow> ('m \<Rightarrow> 'x array_like \<Rightarrow> 'y array_like option \<Rightarrow> error + real)
   \<Rightarrow> ('y array_like option \<Rightarrow> 'p \<Rightarrow> error + real)
   \<Rightarrow> (nat \<Rightarrow> real)
   \<Rightarrow> 'x array_like \<Rightarrow> 'y array_like option
   \<Rightarrow> (nat list \<times> nat list) list \<Rightarrow> cv_state \<Rightarrow> error + cv_state" where
  "cv_loop estimator scorer log_loss clock X y [] st = Inr st"
| "cv_loop estimator scorer log_loss clock X y (train_test # folds) st =
     (case cv_fold estimator scorer log_loss clock X y train_test (ticks st) of
        Inl e \<Rightarrow> Inl e
      | Inr (score_value, logloss, elapsed) \<Rightarrow>
          cv_loop estimator scorer log_loss clock X y folds
            \<lparr>cv_results = cv_results st @ [score_value],
             log_loss_results =
               (case logloss of
                  None \<Rightarrow> log_loss_results st
                | Some l \<Rightarrow> log_loss_results st @ [l]),
             time_results = time_results st @ [elapsed],
             execution_time = Some elapsed,
             ticks = ticks st + 2\<rparr>)"

text \<open>
  \<^verbatim>\<open>
  result = np.array(cv_results).mean(), np.array(log_loss_results).mean(), np.array(execution_time).mean()
  return result
  \<close>
  With no fold the local variable \<^verbatim>\<open>execution_time\<close> is unbound.
\<close>

definition cross_val_score_track_trials ::
  "('x, 'y, 'm, 'p) estimator
   \<Rightarrow> ('m \<Rightarrow> 'x array_like \<Rightarrow> 'y array_like option \<Rightarrow> error + real)
   \<Rightarrow> ('y array_like option \<Rightarrow> 'p \<Rightarrow> error + real)
   \<Rightarrow> (nat \<Rightarrow> real)
   \<Rightarrow> 'x array_like \<Rightarrow> 'y array_like option
   \<Rightarrow> (nat list \<times> nat list) list \<Rightarrow> error + npfloat \<times> npfloat \<times> npfloat" where
  "cross_val_score_track_trials estimator scorer log_loss clock X y folds =
     (case cv_loop estimator scorer log_loss clock X y folds
             \<lparr>cv_results = [], log_loss_results = [], time_results = [],
              execution_time = None, ticks = 0\<rparr> of
        Inl e \<Rightarrow> Inl e
      | Inr st \<Rightarrow>
          (case execution_time st of
             None \<Rightarrow> Inl UnboundLocalError
           | Some t \<Rightarrow>
               Inr (np_mean (cv_results st), np_mean (log_loss_results st), np_mean [t])))"

section \<open>Dictionaries\<close>

lemma dict_set_map_of: "map_of (dict_set d k v) = (map_of d)(k \<mapsto> v)"
  by (induction d k v rule: dict_set.induct) auto

lemma dict_merge_lookup:
  "distinct (map fst b) \<Longrightarrow>
   map_of (dict_merge a b) x = (case map_of b x of None \<Rightarrow> map_of a x | Some v \<Rightarrow> Some v)"
proof (induction a b rule: dict_merge.induct)
  case (1 a)
  then show ?case by simp
next
  case (2 a k v b)
  then have "map_of b k = None"
    by (simp add: map_of_eq_None_iff)
  with 2 show ?case
    by (auto simp: dict_set_map_of split: option.splits)
qed

lemma dict_merge_map_of:
  "distinct (map fst b) \<Longrightarrow> map_of (dict_merge a b) = map_of a ++ map_of b"
  by (rule ext) (simp add: dict_merge_lookup map_add_def)

lemma dict_merge_map_of_other:
  "k \<notin> fst ` set b \<Longrightarrow> map_of (dict_merge a b) k = map_of a k"
  by (induction a b rule: dict_merge.induct) (auto simp: dict_set_map_of)

section \<open>The recursion over samples\<close>

lemma inst_items_keys:
  "inst_items od items = Inr items' \<Longrightarrow> map fst items' = map fst items"
  by (induction items arbitrary: items') (auto split: option.splits sum.splits)

lemma inst_items_values:
  "inst_items od items = Inr items' \<Longrightarrow> distinct (map fst items) \<Longrightarrow>
   map_of items k = Some nv \<Longrightarrow>
   (case map_of od k of
      None \<Rightarrow> map_of items' k = Some nv
    | Some ov \<Rightarrow> (\<exists>r. instantiate_from_hyperopt_search_space ov nv = Inr r \<and> map_of items' k = Some (entry r)))"
proof (induction items arbitrary: items')
  case Nil
  then show ?case by simp
next
  case (Cons a items)
  obtain k' v' where a: "a = (k', v')" by (cases a)
  show ?case
  proof (cases "k = k'")
    case True
    with Cons.prems a show ?thesis by (auto split: option.splits sum.splits)
  next
    case False
    with Cons.prems a Cons.IH show ?thesis
      by (auto split: option.splits sum.splits)
  qed
qed

lemma instantiate_leaf: "is_leaf new \<Longrightarrow> instantiate_from_hyperopt_search_space obj new = Inr (RetNone new)"
  by (cases new) simp_all

lemma inst_items_leaf:
  "list_all (\<lambda>kv. is_leaf (snd kv)) items \<Longrightarrow> inst_items od items = Inr items"
  by (induction items) (auto simp: instantiate_leaf split: option.splits)

lemma inst_seq_iff:
  "length os = length ns \<Longrightarrow>
   inst_seq os ns = Inr rs \<longleftrightarrow>
     length rs = length ns \<and> (\<forall>i<length ns. instantiate_from_hyperopt_search_space (os ! i) (ns ! i) = Inr (rs ! i))"
proof (induction os ns arbitrary: rs rule: list_induct2)
  case Nil
  then show ?case by auto
next
  case (Cons x xs y ys)
  show ?case
  proof (cases rs)
    case Nil
    then show ?thesis by (auto split: sum.splits)
  next
    case (Cons r rs')
    have "inst_seq (x # xs) (y # ys) = Inr (r # rs') \<longleftrightarrow>
          instantiate_from_hyperopt_search_space x y = Inr r \<and> inst_seq xs ys = Inr rs'"
      by (auto split: sum.splits)
    also have "\<dots> \<longleftrightarrow> instantiate_from_hyperopt_search_space x y = Inr r \<and> length rs' = length ys
          \<and> (\<forall>i<length ys. instantiate_from_hyperopt_search_space (xs ! i) (ys ! i) = Inr (rs' ! i))"
      by (simp add: Cons.IH)
    also have "\<dots> \<longleftrightarrow> length (r # rs') = length (y # ys)
          \<and> (\<forall>i<length (y # ys). instantiate_from_hyperopt_search_space ((x # xs) ! i) ((y # ys) ! i) = Inr ((r # rs') ! i))"
      by (auto simp: nth_Cons split: nat.splits)
    finally show ?thesis using Cons by simp
  qed
qed

lemma list_ex_is_update:
  "list_ex is_update rs \<longleftrightarrow> (\<exists>i<length rs. returned (rs ! i) \<noteq> None)"
proof -
  have "is_update r \<longleftrightarrow> returned r \<noteq> None" for r by (cases r) simp_all
  then show ?thesis by (simp add: list_ex_length)
qed

lemma instantiate_seq:
  assumes "seq_items obj = Some os" and "seq_items new = Some ns"
    and "length os = length ns" and "length rs = length ns"
    and "\<forall>i<length ns. instantiate_from_hyperopt_search_space (os ! i) (ns ! i) = Inr (rs ! i)"
  shows "instantiate_from_hyperopt_search_space obj new =
     Inr (if (\<exists>i<length ns. returned (rs ! i) \<noteq> None) \<or> is_tuple obj \<noteq> is_tuple new
          then RetVal (mk_seq (is_tuple obj) (map entry rs))
          else RetNone (mk_seq (is_tuple new) (map entry rs)))"
proof -
  from assms have seq: "inst_seq os ns = Inr rs" by (simp add: inst_seq_iff)
  from assms(4) have ex: "list_ex is_update rs \<longleftrightarrow> (\<exists>i<length ns. returned (rs ! i) \<noteq> None)"
    by (simp add: list_ex_is_update)
  from assms(2) show ?thesis
  proof (cases new)
    case (PList xs)
    with assms(1-3) seq ex show ?thesis by auto
  next
    case (PTuple xs)
    with assms(1-3) seq ex show ?thesis by auto
  qed simp_all
qed

lemma instantiate_dict:
  assumes "instantiate_from_hyperopt_search_space obj (PDict nd) = Inr r"
  shows "\<exists>od nd'. obj = PDict od \<and> r = RetNone (PDict nd') \<and> map fst nd' = map fst nd
     \<and> (distinct (map fst nd) \<longrightarrow>
          (\<forall>k nv. map_of nd k = Some nv \<longrightarrow>
             (case map_of od k of
                None \<Rightarrow> map_of nd' k = Some nv
              | Some ov \<Rightarrow> (\<exists>r'. instantiate_from_hyperopt_search_space ov nv = Inr r' \<and> map_of nd' k = Some (entry r')))))"
proof -
  from assms obtain od nd' where obj: "obj = PDict od" and items: "inst_items od nd = Inr nd'"
    and r: "r = RetNone (PDict nd')"
    by (auto split: pyval.splits sum.splits)
  from items have "map fst nd' = map fst nd" by (rule inst_items_keys)
  with obj r items show ?thesis
    by (auto intro: inst_items_values)
qed

lemma instantiate_nested:
  assumes "instantiate_from_hyperopt_search_space obj (NestedHyperoptSpace sub_space) = Inr r"
  shows "\<exists>sub_op sub_params. resolve_nested obj sub_space = Inr (sub_op, sub_params)
     \<and> (case sub_op of
          POp lale_object \<Rightarrow> (\<exists>inst. create_instance_from_hyperopt_search_space lale_object sub_params = Inr inst \<and> r = RetVal (POp inst))
        | _ \<Rightarrow> r = RetNone (NestedHyperoptSpace sub_space))"
  using assms by (auto split: sum.splits pyval.splits prod.splits)

text \<open>
  Claim C1, as amended. \<^verbatim>\<open>instantiate_from_hyperopt_search_space\<close> returns \<^verbatim>\<open>None\<close> for
  every dictionary sample, also when recursive calls on its entries yield updates: the
  updates are stored into the sample dictionary itself, under the same keys. For a list
  or tuple sample against a list or tuple of the same length whose recursive calls all
  return, it returns \<^verbatim>\<open>None\<close> exactly when no recursive call on an entry yields an update
  and the sample has the container kind of the original; otherwise it returns the updated
  container, of the original's kind, which holds the update of every entry that has one
  and the sample's entry elsewhere. So whenever a recursive call on an entry of a list or
  tuple yields an update, the call returns the updated container rather than \<^verbatim>\<open>None\<close>.
  For a sample that is neither a marker nor a list, tuple or dictionary it returns
  \<^verbatim>\<open>None\<close>. For a \<^verbatim>\<open>NestedHyperoptSpace\<close> marker it returns the instance created from the
  resolved operator, and \<^verbatim>\<open>None\<close> when the resolved original is not an operator.
\<close>

theorem instantiate_none_or_value:
  "(\<forall>nd r. new = PDict nd \<and> instantiate_from_hyperopt_search_space obj new = Inr r \<longrightarrow>
      (\<exists>od nd'. obj = PDict od \<and> r = RetNone (PDict nd') \<and> map fst nd' = map fst nd
         \<and> (distinct (map fst nd) \<longrightarrow>
              (\<forall>k nv. map_of nd k = Some nv \<longrightarrow>
                 (case map_of od k of
                    None \<Rightarrow> map_of nd' k = Some nv
                  | Some ov \<Rightarrow>
                      (\<exists>r'. instantiate_from_hyperopt_search_space ov nv = Inr r'
                         \<and> map_of nd' k = Some (entry r')))))))
   \<and> (\<forall>os ns rs. seq_items obj = Some os \<and> seq_items new = Some ns
          \<and> length os = length ns \<and> length rs = length ns
          \<and> (\<forall>i<length ns. instantiate_from_hyperopt_search_space (os ! i) (ns ! i) = Inr (rs ! i)) \<longrightarrow>
        instantiate_from_hyperopt_search_space obj new =
          Inr (if (\<exists>i<length ns. returned (rs ! i) \<noteq> None) \<or> is_tuple obj \<noteq> is_tuple new
               then RetVal (mk_seq (is_tuple obj) (map entry rs))
               else RetNone (mk_seq (is_tuple new) (map entry rs))))
   \<and> (is_leaf new \<longrightarrow> instantiate_from_hyperopt_search_space obj new = Inr (RetNone new))
   \<and> (\<forall>sub_space r. new = NestedHyperoptSpace sub_space
          \<and> instantiate_from_hyperopt_search_space obj new = Inr r \<longrightarrow>
        (\<exists>sub_op sub_params. resolve_nested obj sub_space = Inr (sub_op, sub_params)
           \<and> (case sub_op of
                POp lale_object \<Rightarrow>
                  (\<exists>inst. create_instance_from_hyperopt_search_space lale_object sub_params = Inr inst
                     \<and> r = RetVal (POp inst))
              | _ \<Rightarrow> r = RetNone (NestedHyperoptSpace sub_space))))"
proof (intro conjI allI impI)
  fix nd r
  assume "new = PDict nd \<and> instantiate_from_hyperopt_search_space obj new = Inr r"
  then have "instantiate_from_hyperopt_search_space obj (PDict nd) = Inr r" by blast
  then show "\<exists>od nd'. obj = PDict od \<and> r = RetNone (PDict nd') \<and> map fst nd' = map fst nd
         \<and> (distinct (map fst nd) \<longrightarrow>
              (\<forall>k nv. map_of nd k = Some nv \<longrightarrow>
                 (case map_of od k of
                    None \<Rightarrow> map_of nd' k = Some nv
                  | Some ov \<Rightarrow>
                      (\<exists>r'. instantiate_from_hyperopt_search_space ov nv = Inr r'
                         \<and> map_of nd' k = Some (entry r')))))"
    by (rule instantiate_dict)
next
  fix os ns rs
  assume "seq_items obj = Some os \<and> seq_items new = Some ns
          \<and> length os = length ns \<and> length rs = length ns
          \<and> (\<forall>i<length ns. instantiate_from_hyperopt_search_space (os ! i) (ns ! i) = Inr (rs ! i))"
  then have "seq_items obj = Some os" and "seq_items new = Some ns"
    and "length os = length ns" and "length rs = length ns"
    and "\<forall>i<length ns. instantiate_from_hyperopt_search_space (os ! i) (ns ! i) = Inr (rs ! i)"
    by blast+
  then show "instantiate_from_hyperopt_search_space obj new =
          Inr (if (\<exists>i<length ns. returned (rs ! i) \<noteq> None) \<or> is_tuple obj \<noteq> is_tuple new
               then RetVal (mk_seq (is_tuple obj) (map entry rs))
               else RetNone (mk_seq (is_tuple new) (map entry rs)))"
    by (rule instantiate_seq)
next
  assume "is_leaf new"
  then show "instantiate_from_hyperopt_search_space obj new = Inr (RetNone new)"
    by (rule instantiate_leaf)
next
  fix sub_space r
  assume "new = NestedHyperoptSpace sub_space
          \<and> instantiate_from_hyperopt_search_space obj new = Inr r"
  then have "instantiate_from_hyperopt_search_space obj (NestedHyperoptSpace sub_space) = Inr r"
    by blast
  then show "\<exists>sub_op sub_params. resolve_nested obj sub_space = Inr (sub_op, sub_params)
           \<and> (case sub_op of
                POp lale_object \<Rightarrow>
                  (\<exists>inst. create_instance_from_hyperopt_search_space lale_object sub_params = Inr inst
                     \<and> r = RetVal (POp inst))
              | _ \<Rightarrow> r = RetNone (NestedHyperoptSpace sub_space))"
    by (rule instantiate_nested)
qed

text \<open>The witness: in a list, the update of one entry makes the call return the updated
  list; with no update the call returns \<^verbatim>\<open>None\<close>.\<close>

theorem instantiate_none_or_value_witness:
  "instantiate_from_hyperopt_search_space
       (PList [POp (IndividualOp ''A'' None), PInt 1])
       (PList [NestedHyperoptSpace (PDict []), PInt 2])
     = Inr (RetVal (PList [POp (IndividualOp ''A'' (Some [])), PInt 2]))
   \<and> instantiate_from_hyperopt_search_space (PList [PInt 1]) (PList [PInt 2])
     = Inr (RetNone (PList [PInt 2]))"
proof -
  let ?obj = "PList [POp (IndividualOp ''A'' None), PInt 1]"
  let ?new = "PList [NestedHyperoptSpace (PDict []), PInt 2]"
  let ?os = "[POp (IndividualOp ''A'' None), PInt 1]"
  let ?ns = "[NestedHyperoptSpace (PDict []), PInt 2]"
  let ?rs = "[RetVal (POp (IndividualOp ''A'' (Some []))), RetNone (PInt 2)]"
  have "\<forall>i<length ?ns. instantiate_from_hyperopt_search_space (?os ! i) (?ns ! i) = Inr (?rs ! i)"
    by (simp add: op_call_def less_Suc_eq)
  then have 1: "seq_items ?obj = Some ?os \<and> seq_items ?new = Some ?ns
          \<and> length ?os = length ?ns \<and> length ?rs = length ?ns
          \<and> (\<forall>i<length ?ns. instantiate_from_hyperopt_search_space (?os ! i) (?ns ! i) = Inr (?rs ! i))"
    by simp
  have c: "\<exists>i<length ?ns. returned (?rs ! i) \<noteq> None"
    by (rule exI [of _ 0]) simp
  have a: "instantiate_from_hyperopt_search_space ?obj ?new
      = Inr (RetVal (PList [POp (IndividualOp ''A'' (Some [])), PInt 2]))"
    by (rule trans [OF instantiate_none_or_value [of ?new ?obj, THEN conjunct2, THEN conjunct1,
        rule_format, OF 1]]) (use c in simp)
  have 2: "seq_items (PList [PInt 1]) = Some [PInt 1] \<and> seq_items (PList [PInt 2]) = Some [PInt 2]
          \<and> length [PInt 1] = length [PInt 2] \<and> length [RetNone (PInt 2)] = length [PInt 2]
          \<and> (\<forall>i<length [PInt 2]. instantiate_from_hyperopt_search_space ([PInt 1] ! i) ([PInt 2] ! i)
                = Inr ([RetNone (PInt 2)] ! i))"
    by simp
  have b: "instantiate_from_hyperopt_search_space (PList [PInt 1]) (PList [PInt 2])
      = Inr (RetNone (PList [PInt 2]))"
    by (rule trans [OF instantiate_none_or_value [of "PList [PInt 2]" "PList [PInt 1]",
        THEN conjunct2, THEN conjunct1, rule_format, OF 2]]) simp
  from a b show ?thesis by (rule conjI)
qed

text \<open>
  Claim C1 as stated fails on a dictionary sample: the recursive call on the entry
  \<open>e\<close> yields an update (an instantiated operator), and the call on the dictionary
  returns \<^verbatim>\<open>None\<close>, the update being stored into the sample.
\<close>

theorem instantiate_none_or_value_counterexample:
  "instantiate_from_hyperopt_search_space (POp (IndividualOp ''A'' None)) (NestedHyperoptSpace (PDict []))
     = Inr (RetVal (POp (IndividualOp ''A'' (Some []))))
   \<and> instantiate_from_hyperopt_search_space (PDict [(KStr ''e'', POp (IndividualOp ''A'' None))])
         (PDict [(KStr ''e'', NestedHyperoptSpace (PDict []))])
     = Inr (RetNone (PDict [(KStr ''e'', POp (IndividualOp ''A'' (Some [])))]))"
  by (simp add: op_call_def)

section \<open>Individual operators\<close>

text \<open>
  Claim C10. For every individual operator and every sample mapping, the key \<open>name\<close> is
  removed from the sample before the merge: the call returns what it returns on the sample
  without its \<open>name\<close> entry, whatever the value of that entry, and the entry of \<open>name\<close> among
  the effective hyperparameters of the instantiated operator is the one the operator
  declared itself (none when it declared none), never the sample's.
\<close>

theorem name_entry_dropped:
  "create_instance_from_hyperopt_search_space (IndividualOp cn hp) (PDict d)
     = create_instance_from_hyperopt_search_space (IndividualOp cn hp) (PDict (filter (\<lambda>kv. fst kv \<noteq> KStr ''name'') d))
   \<and> (\<forall>inst. create_instance_from_hyperopt_search_space (IndividualOp cn hp) (PDict d) = Inr inst \<longrightarrow>
         (\<exists>all_hyperparams. hyperparams_of inst = Some all_hyperparams
            \<and> map_of all_hyperparams (KStr ''name'') = map_of (obj_hyperparams_of hp) (KStr ''name'')))"
proof (intro conjI allI impI)
  show "create_instance_from_hyperopt_search_space (IndividualOp cn hp) (PDict d)
     = create_instance_from_hyperopt_search_space (IndividualOp cn hp) (PDict (filter (\<lambda>kv. fst kv \<noteq> KStr ''name'') d))"
    by simp
next
  fix inst
  assume ret: "create_instance_from_hyperopt_search_space (IndividualOp cn hp) (PDict d) = Inr inst"
  then obtain new' where
    items: "inst_items (obj_hyperparams_of hp) (filter (\<lambda>kv. fst kv \<noteq> KStr ''name'') d) = Inr new'"
    and call: "op_call cn (dict_merge (obj_hyperparams_of hp) new') = Inr inst"
    by (auto split: sum.splits)
  from items have "map fst new' = map fst (filter (\<lambda>kv. fst kv \<noteq> KStr ''name'') d)"
    by (rule inst_items_keys)
  then have "set (map fst new') = set (map fst (filter (\<lambda>kv. fst kv \<noteq> KStr ''name'') d))" by simp
  then have notin: "KStr ''name'' \<notin> fst ` set new'" by auto
  from call have "inst = IndividualOp cn (Some (dict_merge (obj_hyperparams_of hp) new'))"
    by (auto simp: op_call_def split: if_splits)
  with notin show "\<exists>all_hyperparams. hyperparams_of inst = Some all_hyperparams
            \<and> map_of all_hyperparams (KStr ''name'') = map_of (obj_hyperparams_of hp) (KStr ''name'')"
    by (simp add: dict_merge_map_of_other)
qed

theorem name_entry_dropped_witness:
  "create_instance_from_hyperopt_search_space (IndividualOp ''A'' None) (PDict [(KStr ''name'', PStr ''x''), (KStr ''a'', PInt 1)])
     = Inr (IndividualOp ''A'' (Some [(KStr ''a'', PInt 1)]))
   \<and> map_of [(KStr ''a'', PInt 1)] (KStr ''name'') = None"
  using name_entry_dropped [of "''A''" None "[(KStr ''name'', PStr ''x''), (KStr ''a'', PInt 1)]"]
  by (simp add: op_call_def)

text \<open>
  Claim C6, as amended. For every individual operator and every sample mapping for which
  the instantiation returns, the effective hyperparameters of the instantiated operator
  are the union of the declared mapping and the sample mapping without its \<open>name\<close> entry:
  a key of the sample other than \<open>name\<close> has the sample's value, which for a key shared with
  the declared mapping is the entry that \<^verbatim>\<open>instantiate_from_hyperopt_search_space\<close> leaves
  for it (the sample's value itself unless it is a marker, list, tuple or dictionary);
  every other key, \<open>name\<close> included, keeps the declared value. When the sample's values
  are plain and all keys are strings the instantiation returns, with the declared mapping
  overridden by the sample without \<open>name\<close>; in particular \<open>{a:1,b:2}\<close> with the sample
  \<open>{a:9}\<close> yields \<open>{a:9,b:2}\<close>.
\<close>

theorem individual_op_merge:
  "(\<forall>inst. create_instance_from_hyperopt_search_space (IndividualOp cn hp) (PDict d) = Inr inst \<and> distinct (map fst d) \<longrightarrow>
      (\<exists>all_hyperparams. inst = IndividualOp cn (Some all_hyperparams) \<and>
         (\<forall>k. map_of all_hyperparams k =
            (case map_of (filter (\<lambda>kv. fst kv \<noteq> KStr ''name'') d) k of
               None \<Rightarrow> map_of (obj_hyperparams_of hp) k
             | Some nv \<Rightarrow>
                 (case map_of (obj_hyperparams_of hp) k of
                    None \<Rightarrow> Some nv
                  | Some ov \<Rightarrow>
                      (case instantiate_from_hyperopt_search_space ov nv of
                         Inl e \<Rightarrow> None
                       | Inr r \<Rightarrow> Some (entry r)))))))
   \<and> (distinct (map fst d) \<and> list_all (\<lambda>kv. is_leaf (snd kv)) d
        \<and> list_all (\<lambda>kv. is_str_key (fst kv)) (obj_hyperparams_of hp @ d) \<longrightarrow>
      (\<exists>all_hyperparams.
         create_instance_from_hyperopt_search_space (IndividualOp cn hp) (PDict d) = Inr (IndividualOp cn (Some all_hyperparams))
         \<and> map_of all_hyperparams
             = map_of (obj_hyperparams_of hp) ++ map_of (filter (\<lambda>kv. fst kv \<noteq> KStr ''name'') d)))"
proof (intro conjI allI impI)
  fix inst
  let ?d = "filter (\<lambda>kv. fst kv \<noteq> KStr ''name'') d"
  let ?od = "obj_hyperparams_of hp"
  assume "create_instance_from_hyperopt_search_space (IndividualOp cn hp) (PDict d) = Inr inst \<and> distinct (map fst d)"
  then have ret: "create_instance_from_hyperopt_search_space (IndividualOp cn hp) (PDict d) = Inr inst" and dist: "distinct (map fst ?d)"
    by (simp_all add: distinct_map_filter)
  from ret obtain new' where items: "inst_items ?od ?d = Inr new'"
    and call: "op_call cn (dict_merge ?od new') = Inr inst"
    by (auto split: sum.splits)
  from call have inst: "inst = IndividualOp cn (Some (dict_merge ?od new'))"
    by (auto simp: op_call_def split: if_splits)
  from items have keys: "map fst new' = map fst ?d" by (rule inst_items_keys)
  with dist have dist': "distinct (map fst new')" by simp
  have "map_of (dict_merge ?od new') k =
            (case map_of ?d k of
               None \<Rightarrow> map_of ?od k
             | Some nv \<Rightarrow>
                 (case map_of ?od k of
                    None \<Rightarrow> Some nv
                  | Some ov \<Rightarrow>
                      (case instantiate_from_hyperopt_search_space ov nv of
                         Inl e \<Rightarrow> None
                       | Inr r \<Rightarrow> Some (entry r))))" for k
  proof (cases "map_of ?d k")
    case None
    then have "k \<notin> fst ` set ?d" by (simp add: map_of_eq_None_iff)
    with keys have "k \<notin> fst ` set new'" by (metis set_map)
    then have "map_of new' k = None" by (simp add: map_of_eq_None_iff)
    with None dist' show ?thesis by (simp add: dict_merge_lookup)
  next
    case (Some nv)
    have "map_of (dict_merge ?od new') k
        = (case map_of new' k of None \<Rightarrow> map_of ?od k | Some v \<Rightarrow> Some v)"
      using dist' by (rule dict_merge_lookup)
    with inst_items_values [OF items dist Some] Some show ?thesis
      by (auto split: option.splits)
  qed
  with inst show "\<exists>all_hyperparams. inst = IndividualOp cn (Some all_hyperparams) \<and>
         (\<forall>k. map_of all_hyperparams k =
            (case map_of ?d k of
               None \<Rightarrow> map_of ?od k
             | Some nv \<Rightarrow>
                 (case map_of ?od k of
                    None \<Rightarrow> Some nv
                  | Some ov \<Rightarrow>
                      (case instantiate_from_hyperopt_search_space ov nv of
                         Inl e \<Rightarrow> None
                       | Inr r \<Rightarrow> Some (entry r)))))"
    by blast
next
  let ?d = "filter (\<lambda>kv. fst kv \<noteq> KStr ''name'') d"
  let ?od = "obj_hyperparams_of hp"
  assume a: "distinct (map fst d) \<and> list_all (\<lambda>kv. is_leaf (snd kv)) d
        \<and> list_all (\<lambda>kv. is_str_key (fst kv)) (obj_hyperparams_of hp @ d)"
  then have dist: "distinct (map fst ?d)" by (simp add: distinct_map_filter)
  from a have "list_all (\<lambda>kv. is_leaf (snd kv)) ?d" by (simp add: list_all_iff)
  then have items: "inst_items ?od ?d = Inr ?d" by (rule inst_items_leaf)
  have keys: "list_all (\<lambda>kv. is_str_key (fst kv)) (dict_merge a b)"
    if "list_all (\<lambda>kv. is_str_key (fst kv)) a" "list_all (\<lambda>kv. is_str_key (fst kv)) b" for a b
    using that
  proof (induction a b rule: dict_merge.induct)
    case (1 a)
    then show ?case by simp
  next
    case (2 a k v b)
    have "list_all (\<lambda>kv. is_str_key (fst kv)) (dict_set a k v)"
      if "list_all (\<lambda>kv. is_str_key (fst kv)) a" "is_str_key k" for a
      using that by (induction a k v rule: dict_set.induct) auto
    with 2 show ?case by simp
  qed
  from a have "list_all (\<lambda>kv. is_str_key (fst kv)) (dict_merge ?od ?d)"
    by (intro keys) (simp_all add: list_all_iff)
  with items have "create_instance_from_hyperopt_search_space (IndividualOp cn hp) (PDict d) = Inr (IndividualOp cn (Some (dict_merge ?od ?d)))"
    by (simp add: op_call_def)
  with dist show "\<exists>all_hyperparams.
         create_instance_from_hyperopt_search_space (IndividualOp cn hp) (PDict d) = Inr (IndividualOp cn (Some all_hyperparams))
         \<and> map_of all_hyperparams = map_of ?od ++ map_of ?d"
    by (simp add: dict_merge_map_of)
qed

theorem individual_op_merge_witness:
  "distinct (map fst [(KStr ''a'', PInt 9)])
   \<and> create_instance_from_hyperopt_search_space (IndividualOp ''Op'' (Some [(KStr ''a'', PInt 1), (KStr ''b'', PInt 2)]))
        (PDict [(KStr ''a'', PInt 9)])
     = Inr (IndividualOp ''Op'' (Some [(KStr ''a'', PInt 9), (KStr ''b'', PInt 2)]))"
  using individual_op_merge [of "''Op''" "Some [(KStr ''a'', PInt 1), (KStr ''b'', PInt 2)]" "[(KStr ''a'', PInt 9)]"]
  by (simp add: op_call_def)

text \<open>
  Claim C6 as stated fails on the shared key \<open>name\<close>: with the declared hyperparameters
  \<open>{name:1}\<close> and the sample \<open>{name:2}\<close> the effective hyperparameters are \<open>{name:1}\<close>,
  where the union with the sample taking precedence has \<open>name:2\<close>.
\<close>

theorem individual_op_merge_counterexample:
  "create_instance_from_hyperopt_search_space (IndividualOp ''A'' (Some [(KStr ''name'', PInt 1)])) (PDict [(KStr ''name'', PInt 2)])
     = Inr (IndividualOp ''A'' (Some [(KStr ''name'', PInt 1)]))
   \<and> (map_of [(KStr ''name'', PInt 1)] ++ map_of [(KStr ''name'', PInt 2)]) (KStr ''name'')
       = Some (PInt 2)"
  by (simp add: op_call_def)

section \<open>Pipelines\<close>

lemma create_steps_iff:
  "length steps = length hs \<Longrightarrow>
   create_steps steps hs = Inr insts \<longleftrightarrow>
     length insts = length steps
     \<and> (\<forall>i<length steps. create_instance_from_hyperopt_search_space (steps ! i) (hs ! i) = Inr (insts ! i)
            \<and> (is_choice (steps ! i) \<or> class_name (steps ! i) = class_name (insts ! i)))"
proof (induction steps hs arbitrary: insts rule: list_induct2)
  case Nil
  then show ?case by auto
next
  case (Cons x xs y ys)
  show ?case
  proof (cases insts)
    case Nil
    then show ?thesis by (auto split: sum.splits)
  next
    case (Cons r rs')
    have "create_steps (x # xs) (y # ys) = Inr (r # rs') \<longleftrightarrow>
          (create_instance_from_hyperopt_search_space x y = Inr r \<and> (is_choice x \<or> class_name x = class_name r))
          \<and> create_steps xs ys = Inr rs'"
      by (auto split: sum.splits)
    also have "\<dots> \<longleftrightarrow> (create_instance_from_hyperopt_search_space x y = Inr r \<and> (is_choice x \<or> class_name x = class_name r))
          \<and> length rs' = length xs
          \<and> (\<forall>i<length xs. create_instance_from_hyperopt_search_space (xs ! i) (ys ! i) = Inr (rs' ! i)
            \<and> (is_choice (xs ! i) \<or> class_name (xs ! i) = class_name (rs' ! i)))"
      by (simp add: Cons.IH)
    also have "\<dots> \<longleftrightarrow> length (r # rs') = length (x # xs)
          \<and> (\<forall>i<length (x # xs). create_instance_from_hyperopt_search_space ((x # xs) ! i) ((y # ys) ! i) = Inr ((r # rs') ! i)
            \<and> (is_choice ((x # xs) ! i) \<or> class_name ((x # xs) ! i) = class_name ((r # rs') ! i)))"
      by (auto simp: nth_Cons split: nat.splits)
    finally show ?thesis using Cons by simp
  qed
qed

lemma trainable_edges_of_dom:
  "\<forall>e\<in>set edges. fst e \<in> dom m \<and> snd e \<in> dom m \<Longrightarrow>
   trainable_edges_of m edges = Some (map (\<lambda>e. (the (m (fst e)), the (m (snd e)))) edges)"
  by (induction edges) auto

lemma trainable_edges_of_Some:
  "trainable_edges_of m edges = Some es \<Longrightarrow>
     (\<forall>e\<in>set edges. fst e \<in> dom m \<and> snd e \<in> dom m)
     \<and> es = map (\<lambda>e. (the (m (fst e)), the (m (snd e)))) edges"
proof (induction edges arbitrary: es)
  case Nil
  then show ?case by simp
next
  case (Cons e edges)
  obtain x y where e: "e = (x, y)" by (cases e)
  from Cons.prems e obtain x' y' es' where "m x = Some x'" "m y = Some y'"
    "trainable_edges_of m edges = Some es'" "es = (x', y') # es'"
    by (auto split: option.splits)
  with Cons.IH [of es'] e show ?case by auto
qed

lemma trainable_edges_of_iff:
  "trainable_edges_of m edges = Some es \<longleftrightarrow>
     (\<forall>e\<in>set edges. fst e \<in> dom m \<and> snd e \<in> dom m)
     \<and> es = map (\<lambda>e. (the (m (fst e)), the (m (snd e)))) edges"
  using trainable_edges_of_dom trainable_edges_of_Some by blast

lemma op_map_of_dom: "dom (op_map_of steps) = fst ` set steps"
proof -
  have z: "map fst (zip (map fst steps) [0..<length steps]) = map fst steps"
    by (rule map_fst_zip) simp
  have "dom (op_map_of steps) = fst ` set (zip (map fst steps) [0..<length steps])"
    by (simp add: op_map_of_def dom_map_of_conv_image_fst)
  also have "\<dots> = set (map fst (zip (map fst steps) [0..<length steps]))"
    by (simp only: set_map)
  also have "\<dots> = set (map fst steps)" by (simp only: z)
  also have "\<dots> = fst ` set steps" by (simp only: set_map)
  finally show ?thesis .
qed

lemma op_map_of_snoc:
  "op_map_of (steps @ [s]) = (op_map_of steps)(fst s \<mapsto> length steps)"
  by (simp add: op_map_of_def)

text \<open>The entry of a step object is the position of the last turn of the loop that
  instantiated that object.\<close>

lemma op_map_of_last:
  "op_map_of steps a = Some i \<longleftrightarrow>
     i < length steps \<and> fst (steps ! i) = a
     \<and> (\<forall>j<length steps. fst (steps ! j) = a \<longrightarrow> j \<le> i)"
proof (induction steps rule: rev_induct)
  case Nil
  then show ?case by (simp add: op_map_of_def)
next
  case (snoc s steps)
  let ?n = "length steps"
  have at_n: "(steps @ [s]) ! ?n = s" by simp
  have below: "(steps @ [s]) ! j = steps ! j" if "j < ?n" for j
    using that by (simp add: nth_append)
  have all: "(\<forall>j<length (steps @ [s]). fst ((steps @ [s]) ! j) = a \<longrightarrow> j \<le> i)
      \<longleftrightarrow> (\<forall>j<?n. fst (steps ! j) = a \<longrightarrow> j \<le> i) \<and> (fst s = a \<longrightarrow> ?n \<le> i)"
    by (simp only: length_append_singleton All_less_Suc at_n) (metis below)
  show ?case
  proof (cases "a = fst s")
    case True
    have "op_map_of (steps @ [s]) a = Some i \<longleftrightarrow> i = ?n"
      using True by (auto simp: op_map_of_snoc)
    also have "\<dots> \<longleftrightarrow> i < length (steps @ [s]) \<and> fst ((steps @ [s]) ! i) = a
        \<and> (\<forall>j<?n. fst (steps ! j) = a \<longrightarrow> j \<le> i) \<and> (fst s = a \<longrightarrow> ?n \<le> i)"
    proof
      assume "i = ?n"
      with True at_n show "i < length (steps @ [s]) \<and> fst ((steps @ [s]) ! i) = a
        \<and> (\<forall>j<?n. fst (steps ! j) = a \<longrightarrow> j \<le> i) \<and> (fst s = a \<longrightarrow> ?n \<le> i)"
        by simp
    next
      assume r: "i < length (steps @ [s]) \<and> fst ((steps @ [s]) ! i) = a
        \<and> (\<forall>j<?n. fst (steps ! j) = a \<longrightarrow> j \<le> i) \<and> (fst s = a \<longrightarrow> ?n \<le> i)"
      with True have "?n \<le> i" and "i < Suc ?n" by simp_all
      then show "i = ?n" by simp
    qed
    finally show ?thesis by (simp only: all)
  next
    case False
    have "op_map_of (steps @ [s]) a = Some i \<longleftrightarrow> op_map_of steps a = Some i"
      using False by (simp add: op_map_of_snoc)
    also have "\<dots> \<longleftrightarrow> i < ?n \<and> fst (steps ! i) = a
        \<and> (\<forall>j<?n. fst (steps ! j) = a \<longrightarrow> j \<le> i)"
      by (rule snoc.IH)
    also have "\<dots> \<longleftrightarrow> i < length (steps @ [s]) \<and> fst ((steps @ [s]) ! i) = a
        \<and> (\<forall>j<?n. fst (steps ! j) = a \<longrightarrow> j \<le> i) \<and> (fst s = a \<longrightarrow> ?n \<le> i)"
    proof
      assume l: "i < ?n \<and> fst (steps ! i) = a \<and> (\<forall>j<?n. fst (steps ! j) = a \<longrightarrow> j \<le> i)"
      then have "i < ?n" by blast
      with l False below [of i]
      show "i < length (steps @ [s]) \<and> fst ((steps @ [s]) ! i) = a
        \<and> (\<forall>j<?n. fst (steps ! j) = a \<longrightarrow> j \<le> i) \<and> (fst s = a \<longrightarrow> ?n \<le> i)"
        by auto
    next
      assume r: "i < length (steps @ [s]) \<and> fst ((steps @ [s]) ! i) = a
        \<and> (\<forall>j<?n. fst (steps ! j) = a \<longrightarrow> j \<le> i) \<and> (fst s = a \<longrightarrow> ?n \<le> i)"
      have "i \<noteq> ?n"
      proof
        assume "i = ?n"
        with r at_n have "fst s = a" by simp
        with False show False by simp
      qed
      with r have lt: "i < ?n" by simp
      with r below [of i] have "fst (steps ! i) = a" by simp
      with lt r show "i < ?n \<and> fst (steps ! i) = a
        \<and> (\<forall>j<?n. fst (steps ! j) = a \<longrightarrow> j \<le> i)"
        by blast
    qed
    finally show ?thesis by (simp only: all)
  qed
qed


lemma op_map_of_step:
  assumes "a \<in> fst ` set steps"
  shows "the (op_map_of steps a) < length steps
     \<and> fst (steps ! the (op_map_of steps a)) = a
     \<and> (\<forall>j<length steps. fst (steps ! j) = a \<longrightarrow> j \<le> the (op_map_of steps a))"
proof -
  from assms have "a \<in> dom (op_map_of steps)" by (simp add: op_map_of_dom)
  then obtain i where i: "op_map_of steps a = Some i" by auto
  with op_map_of_last [of steps a i]
  have props: "i < length steps \<and> fst (steps ! i) = a
     \<and> (\<forall>j<length steps. fst (steps ! j) = a \<longrightarrow> j \<le> i)"
    by blast
  from i have t: "the (op_map_of steps a) = i" by simp
  show ?thesis unfolding t by (rule props)
qed

lemma op_map_of_distinct:
  assumes "distinct (map fst steps)" and "i < length steps"
  shows "the (op_map_of steps (fst (steps ! i))) = i"
proof -
  from assms(2) have "fst (steps ! i) \<in> fst ` set steps" by simp
  from op_map_of_step [OF this]
  have "the (op_map_of steps (fst (steps ! i))) < length steps"
    and "fst (steps ! the (op_map_of steps (fst (steps ! i)))) = fst (steps ! i)"
    by simp_all
  then have eq: "map fst steps ! the (op_map_of steps (fst (steps ! i))) = map fst steps ! i"
    and lt: "the (op_map_of steps (fst (steps ! i))) < length (map fst steps)"
    using assms(2) by simp_all
  from assms(2) have "i < length (map fst steps)" by simp
  with assms(1) lt
  have "(map fst steps ! the (op_map_of steps (fst (steps ! i))) = map fst steps ! i)
      = (the (op_map_of steps (fst (steps ! i))) = i)"
    by (rule nth_eq_iff_index_eq)
  from this [THEN iffD1, OF eq] show ?thesis .
qed

text \<open>
  Claim C5. For every pipeline with steps \<open>[s0..sk]\<close> and edges \<open>E\<close> and every sample sequence
  \<open>[h0..hk]\<close> of the same length, where each step \<open>si\<close> instantiates with \<open>hi\<close> to an
  instance of its own class (or is a choice) and every edge joins steps of the pipeline,
  \<^verbatim>\<open>create_instance_from_hyperopt_search_space\<close> returns a pipeline whose steps are exactly
  the \<open>k+1\<close> instances in the same order and whose edges are \<open>(map[a], map[b])\<close> for the
  edges \<open>(a, b)\<close> of \<open>E\<close>, in their order. Here \<open>map\<close> sends the step object \<open>a\<close> to the
  instance made for it, the new object at the position of \<open>a\<close> among the steps: when the
  steps are different objects, equal or not in class and hyperparameters, \<open>map\<close> sends
  step \<open>i\<close> to instance \<open>i\<close>; when one object stands at several places, to the instance
  of the last of them, as the assignment \<^verbatim>\<open>op_map[sub_op] = op_instance\<close> leaves it.
\<close>

theorem pipeline_instantiation:
  assumes "seq_items hyperparams = Some hs" and "length hs = length steps"
    and "length insts = length steps"
    and "\<forall>i<length steps.
           create_instance_from_hyperopt_search_space (snd (steps ! i)) (hs ! i) = Inr (insts ! i)
           \<and> (is_choice (snd (steps ! i)) \<or> class_name (snd (steps ! i)) = class_name (insts ! i))"
    and "\<forall>e\<in>set edges. fst e \<in> fst ` set steps \<and> snd e \<in> fst ` set steps"
  shows "\<exists>m. create_instance_from_hyperopt_search_space (BasePipeline cn steps edges) hyperparams
             = Inr (BasePipeline ''lale.operators.TrainablePipeline'' (enumerate 0 insts)
                     (map (\<lambda>e. (m (fst e), m (snd e))) edges))
     \<and> (\<forall>a\<in>fst ` set steps. m a < length steps \<and> fst (steps ! m a) = a
            \<and> (\<forall>j<length steps. fst (steps ! j) = a \<longrightarrow> j \<le> m a))
     \<and> (distinct (map fst steps) \<longrightarrow> (\<forall>i<length steps. m (fst (steps ! i)) = i))"
proof -
  let ?m = "\<lambda>a. the (op_map_of steps a)"
  from assms(1) have hs: "py_list hyperparams = Inr hs" by (cases hyperparams) auto
  from assms(2-4) have steps: "create_steps (map snd steps) hs = Inr insts"
    by (simp add: create_steps_iff)
  from assms(5) have edges: "trainable_edges_of (op_map_of steps) edges
      = Some (map (\<lambda>e. (?m (fst e), ?m (snd e))) edges)"
    by (simp add: trainable_edges_of_iff op_map_of_dom)
  from hs steps edges assms(2)
  have "create_instance_from_hyperopt_search_space (BasePipeline cn steps edges) hyperparams
             = Inr (BasePipeline ''lale.operators.TrainablePipeline'' (enumerate 0 insts)
                     (map (\<lambda>e. (?m (fst e), ?m (snd e))) edges))"
    by (simp add: TrainablePipeline_def)
  moreover have "\<forall>a\<in>fst ` set steps. ?m a < length steps \<and> fst (steps ! ?m a) = a
            \<and> (\<forall>j<length steps. fst (steps ! j) = a \<longrightarrow> j \<le> ?m a)"
    using op_map_of_step by blast
  moreover have "distinct (map fst steps) \<longrightarrow> (\<forall>i<length steps. ?m (fst (steps ! i)) = i)"
    using op_map_of_distinct by blast
  ultimately show ?thesis by (intro exI [where x = ?m] conjI)
qed

text \<open>The witness: two steps that are different objects of equal class and hyperparameters,
  joined by an edge, instantiate with the samples \<open>{a:1}\<close> and \<open>{a:2}\<close> to a pipeline whose
  edge goes from the first instance to the second; and the pipeline \<open>[Scaler, Classifier]\<close>
  with the edge from \<open>Scaler\<close> to \<open>Classifier\<close> and the sample \<open>[{}, {n_neighbors:5}]\<close>.\<close>

theorem pipeline_instantiation_witness:
  "create_instance_from_hyperopt_search_space
     (BasePipeline ''lale.operators.PlannedPipeline''
       [(5, IndividualOp ''A'' None), (2, IndividualOp ''A'' None)] [(5, 2)])
     (PList [PDict [(KStr ''a'', PInt 1)], PDict [(KStr ''a'', PInt 2)]])
   = Inr (BasePipeline ''lale.operators.TrainablePipeline''
       [(0, IndividualOp ''A'' (Some [(KStr ''a'', PInt 1)])),
        (1, IndividualOp ''A'' (Some [(KStr ''a'', PInt 2)]))]
       [(0, 1)])
   \<and> create_instance_from_hyperopt_search_space
     (BasePipeline ''lale.operators.PlannedPipeline''
       [(7, IndividualOp ''Scaler'' None), (3, IndividualOp ''Classifier'' None)] [(7, 3)])
     (PList [PDict [], PDict [(KStr ''n_neighbors'', PInt 5)]])
   = Inr (BasePipeline ''lale.operators.TrainablePipeline''
       [(0, IndividualOp ''Scaler'' (Some [])),
        (1, IndividualOp ''Classifier'' (Some [(KStr ''n_neighbors'', PInt 5)]))]
       [(0, 1)])"
proof
  let ?steps = "[(5 :: nat, IndividualOp ''A'' None), (2, IndividualOp ''A'' None)]"
  let ?hs = "[PDict [(KStr ''a'', PInt 1)], PDict [(KStr ''a'', PInt 2)]]"
  let ?insts = "[IndividualOp ''A'' (Some [(KStr ''a'', PInt 1)]),
        IndividualOp ''A'' (Some [(KStr ''a'', PInt 2)])]"
  let ?edges = "[(5, 2)] :: (nat \<times> nat) list"
  have 1: "seq_items (PList ?hs) = Some ?hs" by simp
  have 2: "length ?hs = length ?steps" by simp
  have 3: "length ?insts = length ?steps" by simp
  have 4: "\<forall>i<length ?steps.
           create_instance_from_hyperopt_search_space (snd (?steps ! i)) (?hs ! i) = Inr (?insts ! i)
           \<and> (is_choice (snd (?steps ! i)) \<or> class_name (snd (?steps ! i)) = class_name (?insts ! i))"
    by (simp add: op_call_def less_Suc_eq)
  have 5: "\<forall>e\<in>set ?edges. fst e \<in> fst ` set ?steps \<and> snd e \<in> fst ` set ?steps" by simp
  from pipeline_instantiation [OF 1 2 3 4 5, of "''lale.operators.PlannedPipeline''"]
  obtain m where r: "create_instance_from_hyperopt_search_space
        (BasePipeline ''lale.operators.PlannedPipeline'' ?steps ?edges) (PList ?hs)
      = Inr (BasePipeline ''lale.operators.TrainablePipeline'' (enumerate 0 ?insts)
              (map (\<lambda>e. (m (fst e), m (snd e))) ?edges))"
    and m: "distinct (map fst ?steps) \<longrightarrow> (\<forall>i<length ?steps. m (fst (?steps ! i)) = i)"
    by (elim exE conjE) (rule that)
  from m have ms: "m (fst (?steps ! i)) = i" if "i < 2" for i using that by simp
  from ms [of 0] ms [of 1] r
  show "create_instance_from_hyperopt_search_space
     (BasePipeline ''lale.operators.PlannedPipeline'' ?steps [(5, 2)]) (PList ?hs)
   = Inr (BasePipeline ''lale.operators.TrainablePipeline''
       [(0, IndividualOp ''A'' (Some [(KStr ''a'', PInt 1)])),
        (1, IndividualOp ''A'' (Some [(KStr ''a'', PInt 2)]))]
       [(0, 1)])"
    by simp
next
  let ?steps = "[(7 :: nat, IndividualOp ''Scaler'' None), (3, IndividualOp ''Classifier'' None)]"
  let ?hs = "[PDict [], PDict [(KStr ''n_neighbors'', PInt 5)]]"
  let ?insts = "[IndividualOp ''Scaler'' (Some []),
        IndividualOp ''Classifier'' (Some [(KStr ''n_neighbors'', PInt 5)])]"
  let ?edges = "[(7, 3)] :: (nat \<times> nat) list"
  have 1: "seq_items (PList ?hs) = Some ?hs" by simp
  have 2: "length ?hs = length ?steps" by simp
  have 3: "length ?insts = length ?steps" by simp
  have 4: "\<forall>i<length ?steps.
           create_instance_from_hyperopt_search_space (snd (?steps ! i)) (?hs ! i) = Inr (?insts ! i)
           \<and> (is_choice (snd (?steps ! i)) \<or> class_name (snd (?steps ! i)) = class_name (?insts ! i))"
    by (simp add: op_call_def less_Suc_eq)
  have 5: "\<forall>e\<in>set ?edges. fst e \<in> fst ` set ?steps \<and> snd e \<in> fst ` set ?steps" by simp
  from pipeline_instantiation [OF 1 2 3 4 5, of "''lale.operators.PlannedPipeline''"]
  obtain m where r: "create_instance_from_hyperopt_search_space
        (BasePipeline ''lale.operators.PlannedPipeline'' ?steps ?edges) (PList ?hs)
      = Inr (BasePipeline ''lale.operators.TrainablePipeline'' (enumerate 0 ?insts)
              (map (\<lambda>e. (m (fst e), m (snd e))) ?edges))"
    and m: "distinct (map fst ?steps) \<longrightarrow> (\<forall>i<length ?steps. m (fst (?steps ! i)) = i)"
    by (elim exE conjE) (rule that)
  from m have ms: "m (fst (?steps ! i)) = i" if "i < 2" for i using that by simp
  from ms [of 0] ms [of 1] r
  show "create_instance_from_hyperopt_search_space
     (BasePipeline ''lale.operators.PlannedPipeline'' ?steps [(7, 3)]) (PList ?hs)
   = Inr (BasePipeline ''lale.operators.TrainablePipeline''
       [(0, IndividualOp ''Scaler'' (Some [])),
        (1, IndividualOp ''Classifier'' (Some [(KStr ''n_neighbors'', PInt 5)]))]
       [(0, 1)])"
    by simp
qed

text \<open>The conditions of the theorem are the only way for the instantiation of a pipeline
  to return.\<close>

lemma pipeline_returns_only_if:
  assumes "create_instance_from_hyperopt_search_space (BasePipeline cn steps edges) hyperparams = Inr P"
  shows "\<exists>hs insts. py_list hyperparams = Inr hs \<and> length hs = length steps
     \<and> length insts = length steps
     \<and> (\<forall>i<length steps.
           create_instance_from_hyperopt_search_space (snd (steps ! i)) (hs ! i) = Inr (insts ! i)
           \<and> (is_choice (snd (steps ! i)) \<or> class_name (snd (steps ! i)) = class_name (insts ! i)))
     \<and> (\<forall>e\<in>set edges. fst e \<in> fst ` set steps \<and> snd e \<in> fst ` set steps)
     \<and> P = TrainablePipeline insts
           (map (\<lambda>e. (the (op_map_of steps (fst e)), the (op_map_of steps (snd e)))) edges)"
proof -
  from assms obtain hs insts es where hs: "py_list hyperparams = Inr hs"
    and len: "length hs = length steps"
    and steps: "create_steps (map snd steps) hs = Inr insts"
    and edges: "trainable_edges_of (op_map_of steps) edges = Some es"
    and P: "P = TrainablePipeline insts es"
    by (auto split: sum.splits if_splits option.splits)
  from steps len have insts: "length insts = length steps"
    and each: "\<forall>i<length steps.
           create_instance_from_hyperopt_search_space (snd (steps ! i)) (hs ! i) = Inr (insts ! i)
           \<and> (is_choice (snd (steps ! i)) \<or> class_name (snd (steps ! i)) = class_name (insts ! i))"
    by (simp_all add: create_steps_iff)
  from edges have "\<forall>e\<in>set edges. fst e \<in> fst ` set steps \<and> snd e \<in> fst ` set steps"
    and "es = map (\<lambda>e. (the (op_map_of steps (fst e)), the (op_map_of steps (snd e)))) edges"
    by (simp_all add: trainable_edges_of_iff op_map_of_dom)
  with hs len insts each P show ?thesis by blast
qed

text \<open>The example of two different step objects of equal class and hyperparameters, run
  through the definitions: the edge of the result joins the first instance to the second,
  and an edge whose endpoint is no step raises.\<close>

lemma pipeline_equal_steps_example:
  "create_instance_from_hyperopt_search_space
     (BasePipeline ''lale.operators.PlannedPipeline''
       [(0, IndividualOp ''A'' None), (1, IndividualOp ''A'' None)] [(0, 1)])
     (PTuple [PDict [(KStr ''a'', PInt 1)], PDict [(KStr ''a'', PInt 2)]])
   = Inr (TrainablePipeline
       [IndividualOp ''A'' (Some [(KStr ''a'', PInt 1)]),
        IndividualOp ''A'' (Some [(KStr ''a'', PInt 2)])]
       [(0, 1)])
   \<and> create_instance_from_hyperopt_search_space
     (BasePipeline ''lale.operators.PlannedPipeline''
       [(0, IndividualOp ''A'' None), (1, IndividualOp ''A'' None)] [(0, 4)])
     (PTuple [PDict [(KStr ''a'', PInt 1)], PDict [(KStr ''a'', PInt 2)]])
   = Inl (ValueError edge_msg)"
  by (simp add: op_call_def op_map_of_def)

text \<open>
  Claim C8. For every pipeline and every sample sequence (list or tuple) whose length
  differs from the number of steps, \<^verbatim>\<open>create_instance_from_hyperopt_search_space\<close> raises
  the \<^verbatim>\<open>ValueError\<close> of the step-count mismatch; no pipeline is returned.
\<close>

theorem step_count_mismatch:
  "seq_items hyperparams = Some hs \<Longrightarrow> length hs \<noteq> length steps \<Longrightarrow>
   create_instance_from_hyperopt_search_space (BasePipeline cn steps edges) hyperparams
     = Inl (ValueError step_count_msg)"
  by (cases hyperparams) auto

theorem step_count_mismatch_witness:
  "seq_items (PList []) = Some []
   \<and> length ([] :: pyval list) \<noteq> length [(0 :: nat, IndividualOp ''A'' None)]
   \<and> create_instance_from_hyperopt_search_space
       (BasePipeline ''lale.operators.PlannedPipeline'' [(0, IndividualOp ''A'' None)] []) (PList [])
       = Inl (ValueError step_count_msg)"
  using step_count_mismatch [of "PList []" "[]" "[(0, IndividualOp ''A'' None)]"
      "''lale.operators.PlannedPipeline''" "[]"]
  by simp

section \<open>Choices\<close>

text \<open>
  Claim C2, as amended. For every choice with exactly one alternative and every sample,
  \<^verbatim>\<open>create_instance_from_hyperopt_search_space\<close> applied to the choice and the sample returns
  what it returns applied to the sole alternative and that same sample: the sample is
  never unwrapped, so the singleton mapping \<open>{0: sample}\<close> is passed to the alternative as
  its sample. For a choice with another number of alternatives, the mapping
  \<open>{i: sample}\<close> with \<open>0 \<le> i < len(choices)\<close> selects alternative \<open>i\<close> and passes it
  \<open>sample\<close>.
\<close>

theorem choice_shortcut:
  "create_instance_from_hyperopt_search_space (OperatorChoice [alt]) sample = create_instance_from_hyperopt_search_space alt sample
   \<and> create_instance_from_hyperopt_search_space (OperatorChoice [alt]) (PDict [(KInt 0, sample)]) = create_instance_from_hyperopt_search_space alt (PDict [(KInt 0, sample)])
   \<and> (length choices \<noteq> 1 \<and> 0 \<le> i \<and> i < int (length choices) \<longrightarrow>
        create_instance_from_hyperopt_search_space (OperatorChoice choices) (PDict [(KInt i, sample)]) = create_instance_from_hyperopt_search_space (choices ! nat i) sample)"
proof (intro conjI impI)
  assume a: "length choices \<noteq> 1 \<and> 0 \<le> i \<and> i < int (length choices)"
  then obtain x y zs where "choices = x # y # zs"
    by (cases choices rule: list.exhaust [case_product list.exhaust]) 
       (auto simp: neq_Nil_conv)
  with a show "create_instance_from_hyperopt_search_space (OperatorChoice choices) (PDict [(KInt i, sample)]) = create_instance_from_hyperopt_search_space (choices ! nat i) sample"
    by (simp add: py_index_def del: nth_Cons_Suc)
qed simp_all

theorem choice_shortcut_witness:
  "length [IndividualOp ''A'' None, IndividualOp ''B'' None] \<noteq> 1
   \<and> create_instance_from_hyperopt_search_space (OperatorChoice [IndividualOp ''A'' None, IndividualOp ''B'' None])
        (PDict [(KInt 1, PDict [(KStr ''a'', PInt 9)])])
     = Inr (IndividualOp ''B'' (Some [(KStr ''a'', PInt 9)]))
   \<and> create_instance_from_hyperopt_search_space (OperatorChoice [IndividualOp ''A'' None]) (PDict [(KStr ''a'', PInt 9)])
     = Inr (IndividualOp ''A'' (Some [(KStr ''a'', PInt 9)]))"
  using choice_shortcut [of "IndividualOp ''A'' None" "PDict [(KStr ''a'', PInt 9)]"
               "[IndividualOp ''A'' None, IndividualOp ''B'' None]" 1]
  by (simp add: op_call_def)

text \<open>
  Claim C2 as stated fails: for the choice whose only alternative is the individual
  operator \<open>A\<close>, the empty sample \<open>{}\<close> instantiates \<open>A\<close>, and the mapping \<open>{0: {}}\<close> is
  passed to \<open>A\<close> as its hyperparameters, where the keyword \<open>0\<close> raises \<^verbatim>\<open>TypeError\<close>.
\<close>

theorem choice_shortcut_counterexample:
  "create_instance_from_hyperopt_search_space (OperatorChoice [IndividualOp ''A'' None]) (PDict [])
     = Inr (IndividualOp ''A'' (Some []))
   \<and> create_instance_from_hyperopt_search_space (OperatorChoice [IndividualOp ''A'' None])
         (PDict [(KInt 0, PDict [])])
     = Inl TypeError"
  by (simp add: op_call_def)

section \<open>Splitting with schemas: the derived schema\<close>

text \<open>
  Claim C4. \<^verbatim>\<open>split_with_schemas\<close> returns when the indices \<open>I\<close> are rows of \<open>X\<close> (and of \<open>y\<close>,
  when there is one) and every schema carried has an \<open>items\<close> field. Then, for \<open>X\<close> and for
  \<open>y\<close> each on its own, whether or not the other carries a schema or \<open>y\<close> is there at all:
  when the input carries a schema, its subset has the rows selected by \<open>I\<close> and carries a
  derived schema whose \<open>minItems\<close> and \<open>maxItems\<close> both equal the subset's row count,
  \<open>len(I)\<close>, and whose \<open>items\<close> field is the one of the original schema.
\<close>

theorem split_with_schemas_row_count:
  assumes "list_all (\<lambda>i. i < length (rows all_X)) indices"
    and "\<forall>y. all_y = Some y \<longrightarrow> list_all (\<lambda>i. i < length (rows y)) indices"
    and "\<forall>s. json_schema all_X = Some s \<longrightarrow> (\<exists>items. schema_items s = Inr items)"
    and "\<forall>y s. all_y = Some y \<and> json_schema y = Some s \<longrightarrow> (\<exists>items. schema_items s = Inr items)"
  shows "\<exists>subset_X subset_y.
     split_with_schemas estimator all_X all_y indices train_indices = Inr (subset_X, subset_y)
     \<and> rows subset_X = map (\<lambda>i. rows all_X ! i) indices
     \<and> (\<forall>sx ix. json_schema all_X = Some sx \<and> schema_items sx = Inr ix \<longrightarrow>
          length (rows subset_X) = length indices
          \<and> json_schema subset_X
              = Some (PDict [(KStr ''type'', PStr ''array''),
                             (KStr ''minItems'', PInt (int (length indices))),
                             (KStr ''maxItems'', PInt (int (length indices))),
                             (KStr ''items'', ix)]))
     \<and> (all_y = None \<longrightarrow> subset_y = None)
     \<and> (\<forall>y. all_y = Some y \<longrightarrow>
          (\<exists>sub_y. subset_y = Some sub_y
             \<and> rows sub_y = map (\<lambda>i. rows y ! i) indices
             \<and> (\<forall>sy iy. json_schema y = Some sy \<and> schema_items sy = Inr iy \<longrightarrow>
                  length (rows sub_y) = length indices
                  \<and> json_schema sub_y
                      = Some (PDict [(KStr ''type'', PStr ''array''),
                                     (KStr ''minItems'', PInt (int (length indices))),
                                     (KStr ''maxItems'', PInt (int (length indices))),
                                     (KStr ''items'', iy)]))))"
proof (cases all_y)
  case None
  show ?thesis
  proof (cases "json_schema all_X")
    case no: None
    with None assms(1) show ?thesis
      by (simp add: split_with_schemas_def safe_split_def safe_indexing_def derive_schema_def)
  next
    case (Some sx)
    with assms(3) obtain ix where "schema_items sx = Inr ix" by blast
    with None Some assms(1) show ?thesis
      by (simp add: split_with_schemas_def safe_split_def safe_indexing_def derive_schema_def
            add_schema_def Let_def)
  qed
next
  case y: (Some y)
  with assms(2) have iy: "list_all (\<lambda>i. i < length (rows y)) indices" by simp
  have sub_y: "\<exists>sub_y. derive_schema y \<lparr>rows = map (\<lambda>i. rows y ! i) indices, json_schema = None\<rparr>
        = Inr sub_y
      \<and> rows sub_y = map (\<lambda>i. rows y ! i) indices
      \<and> (\<forall>sy iy. json_schema y = Some sy \<and> schema_items sy = Inr iy \<longrightarrow>
                  length (rows sub_y) = length indices
                  \<and> json_schema sub_y
                      = Some (PDict [(KStr ''type'', PStr ''array''),
                                     (KStr ''minItems'', PInt (int (length indices))),
                                     (KStr ''maxItems'', PInt (int (length indices))),
                                     (KStr ''items'', iy)]))"
  proof (cases "json_schema y")
    case None
    then show ?thesis by (simp add: derive_schema_def)
  next
    case (Some sy)
    with assms(4) y obtain v where "schema_items sy = Inr v" by blast
    with Some show ?thesis by (simp add: derive_schema_def add_schema_def Let_def)
  qed
  then obtain sub_y where d: "derive_schema y \<lparr>rows = map (\<lambda>i. rows y ! i) indices, json_schema = None\<rparr>
        = Inr sub_y"
    and rest: "rows sub_y = map (\<lambda>i. rows y ! i) indices
      \<and> (\<forall>sy iy. json_schema y = Some sy \<and> schema_items sy = Inr iy \<longrightarrow>
                  length (rows sub_y) = length indices
                  \<and> json_schema sub_y
                      = Some (PDict [(KStr ''type'', PStr ''array''),
                                     (KStr ''minItems'', PInt (int (length indices))),
                                     (KStr ''maxItems'', PInt (int (length indices))),
                                     (KStr ''items'', iy)]))"
    by (elim exE conjE) (rule that, assumption, intro conjI)
  show ?thesis
  proof (cases "json_schema all_X")
    case None
    with y assms(1) iy d rest show ?thesis
      by (auto simp add: split_with_schemas_def safe_split_def safe_indexing_def
            derive_schema_def [of all_X])
  next
    case (Some sx)
    with assms(3) obtain ix where "schema_items sx = Inr ix" by blast
    with y Some assms(1) iy d rest show ?thesis
      by (auto simp add: split_with_schemas_def safe_split_def safe_indexing_def
            derive_schema_def [of all_X] add_schema_def Let_def)
  qed
qed

text \<open>The witness: an \<open>X\<close> that carries a schema, split with no \<open>y\<close>; and a \<open>y\<close> that
  carries a schema, split with an \<open>X\<close> that carries none.\<close>

theorem split_with_schemas_row_count_witness:
  "split_with_schemas ()
     \<lparr>rows = [10, 20, 30 :: int],
      json_schema = Some (PDict [(KStr ''type'', PStr ''array''), (KStr ''items'', PStr ''number'')])\<rparr>
     (None :: bool array_like option)
     [2, 0] None
   = Inr (\<lparr>rows = [30, 10],
           json_schema = Some (PDict [(KStr ''type'', PStr ''array''),
                        (KStr ''minItems'', PInt 2), (KStr ''maxItems'', PInt 2),
                        (KStr ''items'', PStr ''number'')])\<rparr>,
          None)
   \<and> split_with_schemas ()
     \<lparr>rows = [10, 20, 30 :: int], json_schema = None\<rparr>
     (Some \<lparr>rows = [True, False, True],
            json_schema = Some (PDict [(KStr ''items'', PStr ''boolean'')])\<rparr>)
     [2, 0] None
   = Inr (\<lparr>rows = [30, 10], json_schema = None\<rparr>,
          Some \<lparr>rows = [True, True],
                json_schema = Some (PDict [(KStr ''type'', PStr ''array''),
                        (KStr ''minItems'', PInt 2), (KStr ''maxItems'', PInt 2),
                        (KStr ''items'', PStr ''boolean'')])\<rparr>)"
  using split_with_schemas_row_count [of
      "\<lparr>rows = [10, 20, 30 :: int],
        json_schema = Some (PDict [(KStr ''type'', PStr ''array''), (KStr ''items'', PStr ''number'')])\<rparr>"
      "[2, 0]" "None :: bool array_like option" "()" None]
    split_with_schemas_row_count [of
      "\<lparr>rows = [10, 20, 30 :: int], json_schema = None\<rparr>"
      "[2, 0]"
      "Some \<lparr>rows = [True, False, True],
            json_schema = Some (PDict [(KStr ''items'', PStr ''boolean'')])\<rparr>" "()" None]
  by (simp add: split_with_schemas_def safe_split_def safe_indexing_def derive_schema_def
        add_schema_def Let_def)

section \<open>Cross validation: the returned triple\<close>

lemma cv_loop_run:
  assumes "length outs = length folds"
    and "\<forall>k<length folds.
           cv_fold estimator scorer log_loss clock X y (folds ! k) (ticks st + 2 * k) = Inr (outs ! k)"
  shows "cv_loop estimator scorer log_loss clock X y folds st =
     Inr \<lparr>cv_results = cv_results st @ map fst outs,
          log_loss_results = log_loss_results st @ List.map_filter (\<lambda>out. fst (snd out)) outs,
          time_results = time_results st @ map (\<lambda>out. snd (snd out)) outs,
          execution_time = (if outs = [] then execution_time st else Some (snd (snd (last outs)))),
          ticks = ticks st + 2 * length folds\<rparr>"
  using assms
proof (induction folds arbitrary: st outs)
  case Nil
  then show ?case by simp
next
  case (Cons train_test folds)
  from Cons.prems(1) obtain out outs' where outs: "outs = out # outs'"
    by (cases outs) auto
  obtain s l t where out: "out = (s, l, t)" by (cases out)
  let ?st = "\<lparr>cv_results = cv_results st @ [s],
             log_loss_results = (case l of None \<Rightarrow> log_loss_results st
                | Some l' \<Rightarrow> log_loss_results st @ [l']),
             time_results = time_results st @ [t],
             execution_time = Some t,
             ticks = ticks st + 2\<rparr>"
  from Cons.prems(2) [rule_format, of 0] outs out
  have head: "cv_fold estimator scorer log_loss clock X y train_test (ticks st) = Inr (s, l, t)"
    by simp
  have rest: "\<forall>k<length folds.
      cv_fold estimator scorer log_loss clock X y (folds ! k) (ticks ?st + 2 * k) = Inr (outs' ! k)"
  proof (intro allI impI)
    fix k assume "k < length folds"
    with Cons.prems(2) [rule_format, of "Suc k"] outs
    show "cv_fold estimator scorer log_loss clock X y (folds ! k) (ticks ?st + 2 * k) = Inr (outs' ! k)"
      by (simp add: add.commute add.left_commute)
  qed
  from Cons.prems(1) outs have len: "length outs' = length folds" by simp
  from Cons.IH [OF len rest] head outs out show ?case
    by (cases l) simp_all
qed

lemma np_mean_nonempty: "xs \<noteq> [] \<Longrightarrow> np_mean xs = Float (sum_list xs / real (length xs))"
  by (cases xs) simp_all

lemma cv_fold_time:
  "cv_fold estimator scorer log_loss clock X y train_test tick = Inr (s, l, t) \<Longrightarrow>
   t = clock (tick + 1) - clock tick"
  by (auto simp: cv_fold_def Let_def split: prod.splits sum.splits)

lemma cross_val_run:
  assumes "folds \<noteq> []" and "length outs = length folds"
    and "\<forall>k<length folds.
           cv_fold estimator scorer log_loss clock X y (folds ! k) (2 * k) = Inr (outs ! k)"
  shows "cross_val_score_track_trials estimator scorer log_loss clock X y folds =
       Inr (np_mean (map fst outs),
            np_mean (List.map_filter (\<lambda>out. fst (snd out)) outs),
            Float (snd (snd (last outs))))"
proof -
  let ?init = "\<lparr>cv_results = [], log_loss_results = [], time_results = [],
              execution_time = None, ticks = 0\<rparr>"
  from assms(3) have "\<forall>k<length folds.
      cv_fold estimator scorer log_loss clock X y (folds ! k) (ticks ?init + 2 * k) = Inr (outs ! k)"
    by simp
  from cv_loop_run [OF assms(2) this] assms(1,2) show ?thesis
    by (auto simp: cross_val_score_track_trials_def)
qed

text \<open>With no fold the evaluation raises: the hypothesis of at least one fold is needed
  below.\<close>

lemma cross_val_no_fold:
  "cross_val_score_track_trials estimator scorer log_loss clock X y [] = Inl UnboundLocalError"
  by (simp add: cross_val_score_track_trials_def)

text \<open>
  Claim C3. For every evaluation with at least one fold in which every fold is fitted and
  scored (fold \<open>k\<close> giving the score, the log loss when it could be computed, and the
  duration \<open>outs ! k\<close>), the first component of the returned triple is the arithmetic
  mean of the per-fold scores, the second the arithmetic mean of the per-fold log losses,
  and the third is the duration of the last fold only: the difference of the two clock
  readings around its fit and score. The witness has folds of durations \<open>1\<close> and \<open>3\<close>:
  the third component is \<open>3\<close>, and the mean of the durations is \<open>2\<close>.
\<close>

theorem fit_time_of_last_fold:
  assumes "folds \<noteq> []" and "length outs = length folds"
    and "\<forall>k<length folds.
           cv_fold estimator scorer log_loss clock X y (folds ! k) (2 * k) = Inr (outs ! k)"
  shows "cross_val_score_track_trials estimator scorer log_loss clock X y folds =
       Inr (np_mean (map fst outs),
            np_mean (List.map_filter (\<lambda>out. fst (snd out)) outs),
            Float (snd (snd (last outs))))
     \<and> snd (snd (last outs))
         = clock (2 * (length folds - 1) + 1) - clock (2 * (length folds - 1))"
proof
  show "cross_val_score_track_trials estimator scorer log_loss clock X y folds =
       Inr (np_mean (map fst outs),
            np_mean (List.map_filter (\<lambda>out. fst (snd out)) outs),
            Float (snd (snd (last outs))))"
    using assms by (rule cross_val_run)
next
  from assms(1,2) have "outs \<noteq> []" by auto
  with assms(1,2) have last: "last outs = outs ! (length folds - 1)"
    and "length folds - 1 < length folds"
    by (simp_all add: last_conv_nth)
  with assms(3) have "cv_fold estimator scorer log_loss clock X y (folds ! (length folds - 1))
      (2 * (length folds - 1)) = Inr (last outs)"
    by simp
  then have "cv_fold estimator scorer log_loss clock X y (folds ! (length folds - 1))
      (2 * (length folds - 1)) = Inr (fst (last outs), fst (snd (last outs)), snd (snd (last outs)))"
    by simp
  then show "snd (snd (last outs))
         = clock (2 * (length folds - 1) + 1) - clock (2 * (length folds - 1))"
    by (rule cv_fold_time)
qed

theorem fit_time_of_last_fold_witness:
  "cross_val_score_track_trials
     \<lparr>fit = (\<lambda>X_train y_train. Inr (rows X_train)),
      predict_proba = (\<lambda>trained X_test. if trained = [0, 1] then Inr () else Inl AttributeError)\<rparr>
     (\<lambda>trained X_test y_test. Inr (if trained = [0, 1] then 1 / 2 else 1))
     (\<lambda>y_true y_pred. Inr (1 / 5))
     (\<lambda>k. if k = 0 then 0 else if k = 1 then 1 else if k = 2 then 5 else 8)
     \<lparr>rows = [0, 1, 2, 3 :: nat], json_schema = None\<rparr>
     (None :: nat array_like option)
     [([0, 1], [2, 3]), ([2, 3], [0, 1])]
   = Inr (Float (3 / 4), Float (1 / 5), Float 3)
   \<and> np_mean [1, 3] = Float 2"
proof -
  let ?est = "\<lparr>fit = (\<lambda>X_train y_train. Inr (rows X_train)),
      predict_proba = (\<lambda>trained X_test. if trained = [0, 1] then Inr () else Inl AttributeError)\<rparr>
      :: (nat, nat, nat list, unit) estimator"
  let ?scorer = "\<lambda>(trained :: nat list) (X_test :: nat array_like) (y_test :: nat array_like option).
      Inr (if trained = [0, 1] then 1 / 2 else 1 :: real) :: error + real"
  let ?log_loss = "\<lambda>(y_true :: nat array_like option) (y_pred :: unit). Inr (1 / 5 :: real) :: error + real"
  let ?clock = "\<lambda>k :: nat. if k = 0 then 0 else if k = 1 then 1 else if k = 2 then 5 else 8 :: real"
  let ?X = "\<lparr>rows = [0, 1, 2, 3 :: nat], json_schema = None\<rparr>"
  let ?y = "None :: nat array_like option"
  let ?folds = "[([0, 1], [2, 3]), ([2, 3], [0, 1])] :: (nat list \<times> nat list) list"
  let ?outs = "[(1 / 2, Some (1 / 5), 1), (1, None, 3)] :: (real \<times> real option \<times> real) list"
  have 1: "?folds \<noteq> []" by simp
  have 2: "length ?outs = length ?folds" by simp
  have 3: "\<forall>k<length ?folds.
      cv_fold ?est ?scorer ?log_loss ?clock ?X ?y (?folds ! k) (2 * k) = Inr (?outs ! k)"
    by (simp add: less_Suc_eq cv_fold_def try_log_loss_def split_with_schemas_def safe_split_def
          safe_indexing_def derive_schema_def Let_def)
  from fit_time_of_last_fold [OF 1 2 3] show ?thesis by simp
qed

text \<open>
  Claim C9. For every evaluation with at least one fold in which, on every fold, the two
  splits and the fit return, the scorer returns \<open>1.0\<close> and \<^verbatim>\<open>predict_proba\<close> raises (the
  method is absent, or it fails), the evaluation returns: the mean score is \<open>1.0\<close>, the
  mean log loss is \<open>NaN\<close>, and the third component is the duration of the last fold.
\<close>

theorem no_predict_proba_gives_nan:
  assumes "folds \<noteq> []"
    and "\<forall>train_test\<in>set folds.
           \<exists>X_train y_train X_test y_test trained.
             split_with_schemas estimator X y (fst train_test) None = Inr (X_train, y_train)
             \<and> split_with_schemas estimator X y (snd train_test) (Some (fst train_test))
                 = Inr (X_test, y_test)
             \<and> fit estimator X_train y_train = Inr trained
             \<and> scorer trained X_test y_test = Inr 1
             \<and> (\<exists>e. predict_proba estimator trained X_test = Inl e)"
  shows "cross_val_score_track_trials estimator scorer log_loss clock X y folds =
       Inr (Float 1, NaN,
            Float (clock (2 * (length folds - 1) + 1) - clock (2 * (length folds - 1))))"
proof -
  let ?n = "length folds"
  let ?outs = "map (\<lambda>k. (1::real, None :: real option, clock (2 * k + 1) - clock (2 * k))) [0..<?n]"
  have each: "\<forall>k<?n. cv_fold estimator scorer log_loss clock X y (folds ! k) (2 * k) = Inr (?outs ! k)"
  proof (intro allI impI)
    fix k assume k: "k < ?n"
    then have "folds ! k \<in> set folds" by simp
    with assms(2) obtain X_train y_train X_test y_test trained e where
      "split_with_schemas estimator X y (fst (folds ! k)) None = Inr (X_train, y_train)"
      "split_with_schemas estimator X y (snd (folds ! k)) (Some (fst (folds ! k))) = Inr (X_test, y_test)"
      "fit estimator X_train y_train = Inr trained"
      "scorer trained X_test y_test = Inr 1"
      "predict_proba estimator trained X_test = Inl e"
      by blast
    with k show "cv_fold estimator scorer log_loss clock X y (folds ! k) (2 * k) = Inr (?outs ! k)"
      by (cases "folds ! k") (simp add: cv_fold_def try_log_loss_def Let_def)
  qed
  have len: "length ?outs = ?n" by simp
  from assms(1) have n: "0 < ?n" by simp
  have scores: "map fst ?outs = map (\<lambda>k. 1) [0..<?n]" by simp
  have "sum_list (map fst ?outs) = real ?n"
    unfolding scores by (simp add: sum_list_triv)
  with n have mean: "np_mean (map fst ?outs) = Float 1"
    by (simp add: np_mean_nonempty)
  have losses: "List.map_filter (\<lambda>out. fst (snd out)) ?outs = []"
    by (simp add: List.map_filter_def filter_empty_conv)
  from n have "last ?outs = (1, None, clock (2 * (?n - 1) + 1) - clock (2 * (?n - 1)))"
    by (simp add: last_map)
  with cross_val_run [OF assms(1) len each] mean losses show ?thesis
    by simp
qed

theorem no_predict_proba_gives_nan_witness:
  "cross_val_score_track_trials
     \<lparr>fit = (\<lambda>X_train y_train. Inr ()),
      predict_proba = (\<lambda>trained X_test. Inl AttributeError :: error + unit)\<rparr>
     (\<lambda>trained X_test y_test. Inr 1)
     (\<lambda>y_true y_pred. Inr 0)
     (\<lambda>k. real k)
     \<lparr>rows = [0, 1, 2, 3 :: nat], json_schema = None\<rparr>
     (None :: nat array_like option)
     [([0, 1], [2, 3]), ([2, 3], [0, 1])]
   = Inr (Float 1, NaN, Float 1)"
proof -
  let ?est = "\<lparr>fit = (\<lambda>X_train y_train. Inr ()),
      predict_proba = (\<lambda>trained X_test. Inl AttributeError :: error + unit)\<rparr>
      :: (nat, nat, unit, unit) estimator"
  let ?scorer = "\<lambda>(trained :: unit) (X_test :: nat array_like) (y_test :: nat array_like option).
      Inr 1 :: error + real"
  let ?X = "\<lparr>rows = [0, 1, 2, 3 :: nat], json_schema = None\<rparr>"
  let ?y = "None :: nat array_like option"
  let ?folds = "[([0, 1], [2, 3]), ([2, 3], [0, 1])] :: (nat list \<times> nat list) list"
  have 1: "?folds \<noteq> []" by simp
  have 2: "\<forall>train_test\<in>set ?folds.
           \<exists>X_train y_train X_test y_test trained.
             split_with_schemas ?est ?X ?y (fst train_test) None = Inr (X_train, y_train)
             \<and> split_with_schemas ?est ?X ?y (snd train_test) (Some (fst train_test))
                 = Inr (X_test, y_test)
             \<and> fit ?est X_train y_train = Inr trained
             \<and> ?scorer trained X_test y_test = Inr 1
             \<and> (\<exists>e. predict_proba ?est trained X_test = Inl e)"
    by (simp add: split_with_schemas_def safe_split_def safe_indexing_def derive_schema_def)
  from no_predict_proba_gives_nan [OF 1 2, of "\<lambda>y_true y_pred. Inr 0" "\<lambda>k. real k"] show ?thesis by simp
qed

section \<open>The value wrapper\<close>

lemma unwrap_not_wrapper: "\<not> is_val_wrapper (unwrap v)"
  by (induction v rule: unwrap.induct) simp_all

text \<open>
  Claim C7, as amended. For every value \<open>v\<close> that is not a \<^verbatim>\<open>val_wrapper\<close> instance,
  \<^verbatim>\<open>unwrap(val_wrapper(v)) == v\<close>, \<^verbatim>\<open>unwrap(val_wrapper(val_wrapper(v))) == v\<close> and
  \<^verbatim>\<open>unwrap(v)\<close> returns \<open>v\<close> unchanged. For every value \<open>v\<close>, wrapper or not, wrapping does
  not change what unwrap returns, and the value unwrap returns is never a wrapper: unwrap
  strips nested wrappers until a value that is not a wrapper is reached.
\<close>

theorem unwrap_val_wrapper:
  "(\<not> is_val_wrapper v \<longrightarrow>
      unwrap (val_wrapper v) = v \<and> unwrap (val_wrapper (val_wrapper v)) = v \<and> unwrap v = v)
   \<and> unwrap (val_wrapper v) = unwrap v
   \<and> \<not> is_val_wrapper (unwrap v)"
  by (cases v) (simp_all add: unwrap_not_wrapper)

theorem unwrap_val_wrapper_witness:
  "\<not> is_val_wrapper (PInt 3)
   \<and> unwrap (val_wrapper (PInt 3)) = PInt 3
   \<and> unwrap (val_wrapper (val_wrapper (PInt 3))) = PInt 3
   \<and> unwrap (PInt 3) = PInt 3"
  using unwrap_val_wrapper [of "PInt 3"] by simp

text \<open>
  Claim C7 as stated fails where \<open>v\<close> is itself a wrapper: for \<open>v = val_wrapper(3)\<close>,
  \<^verbatim>\<open>unwrap(val_wrapper(v))\<close> is \<open>3\<close>, not \<open>v\<close>.
\<close>

theorem unwrap_val_wrapper_counterexample:
  "unwrap (val_wrapper (val_wrapper (PInt 3))) \<noteq> val_wrapper (PInt 3)"
  by simp

end
